theory Spec2Isabelle
  imports Main "HOL-Library.Word"
begin

unbundle bit_operations_syntax

section \<open>KLV objects (mxflib/klvobject.h)\<close>

subsection \<open>Machine types\<close>

text \<open>
  \<open>Position\<close> and \<open>Length\<close> are the library's signed 64-bit integers (\<open>-1\<close> is their
  "not available" value), \<open>Int32\<close> its signed 32-bit integer. They are words, read with
  \<open>sint\<close> and compared with \<open><s\<close> and \<open>\<le>s\<close>. The platform's \<open>size_t\<close> is \<open>'s word\<close>:
  \<open>LENGTH('s)\<close> is its width in bits, so that \<open>sizeof(size_t)\<close> is \<open>LENGTH('s) div 8\<close>.
\<close>

type_synonym UInt8 = "8 word"
type_synonym Int32 = "32 word"
type_synonym Int64 = "64 word"
type_synonym Position = Int64
type_synonym Length = Int64

text \<open>
  Smart pointers are handles: \<open>None\<close> is the NULL pointer, \<open>Some h\<close> points to the object
  with identity \<open>h\<close>.
\<close>

type_synonym MXFFilePtr = "nat option"
type_synonym ULPtr = "UInt8 list option"
type_synonym KLVReadHandlerPtr = "nat option"

subsection \<open>The classes\<close>

text \<open>\<open>KLVObject::KLVInfo\<close>, with the fields in the order of the class.\<close>

record KLVInfo =
  File :: MXFFilePtr
  Offset :: Position
  OuterLength :: Length
  KLSize :: Int32
  Valid :: bool

text \<open>The constructor \<open>KLVInfo()\<close>.\<close>

definition KLVInfo_new :: KLVInfo where
  "KLVInfo_new = \<lparr>File = None, Offset = - 1, OuterLength = 0, KLSize = - 1, Valid = False\<rparr>"

text \<open>
  \<open>DataChunk\<close>: the two members that \<open>KLVObject\<close> reads, the byte count \<open>Size\<close> (a
  \<open>size_t\<close>) and the buffer \<open>Data\<close>, here \<open>Bytes\<close>.
\<close>

record (overloaded) ('s::len) DataChunk =
  Size :: "'s word"
  Bytes :: "UInt8 list"

record (overloaded) ('s::len) KLVObject =
  Source :: KLVInfo
  Dest :: KLVInfo
  TheUL :: ULPtr
  ValueLength :: Length
  Data :: "'s DataChunk"
  DataBase :: Position
  ReadHandler :: KLVReadHandlerPtr

subsection \<open>Source and destination\<close>

text \<open>
  \<open>SetSource\<close> and \<open>SetDestination\<close> call \<open>File->Tell()\<close> when \<open>Location < 0\<close>. The files
  live outside the object: \<open>Tell h\<close> is the current position of the file with handle \<open>h\<close> at
  the time of the call. \<open>File->Tell()\<close> through a NULL pointer has no result: \<open>None\<close>.
\<close>

definition SetSource ::
  "(nat \<Rightarrow> Position) \<Rightarrow> ('s::len) KLVObject \<Rightarrow> MXFFilePtr \<Rightarrow> Position \<Rightarrow> 's KLVObject option"
where
  "SetSource Tell k Fil Location =
    (let k1 = k\<lparr>Source := (Source k)\<lparr>Valid := True\<rparr>\<rparr>;
         k2 = k1\<lparr>Source := (Source k1)\<lparr>File := Fil\<rparr>\<rparr>;
         k3 = (if Location <s 0
               then (case Fil of
                       None \<Rightarrow> None
                     | Some h \<Rightarrow> Some (k2\<lparr>Source := (Source k2)\<lparr>Offset := Tell h\<rparr>\<rparr>))
               else Some (k2\<lparr>Source := (Source k2)\<lparr>Offset := Location\<rparr>\<rparr>))
     in case k3 of
          None \<Rightarrow> None
        | Some k4 \<Rightarrow> if \<not> Valid (Dest k4) then Some (k4\<lparr>Dest := Source k4\<rparr>) else Some k4)"

definition SetDestination ::
  "(nat \<Rightarrow> Position) \<Rightarrow> ('s::len) KLVObject \<Rightarrow> MXFFilePtr \<Rightarrow> Position \<Rightarrow> 's KLVObject option"
where
  "SetDestination Tell k Fil Location =
    (let k1 = k\<lparr>Dest := (Dest k)\<lparr>Valid := True\<rparr>\<rparr>;
         k2 = k1\<lparr>Dest := (Dest k1)\<lparr>File := Fil\<rparr>\<rparr>
     in if Location <s 0
        then (case Fil of
                None \<Rightarrow> None
              | Some h \<Rightarrow> Some (k2\<lparr>Dest := (Dest k2)\<lparr>Offset := Tell h\<rparr>\<rparr>))
        else Some (k2\<lparr>Dest := (Dest k2)\<lparr>Offset := Location\<rparr>\<rparr>))"

subsection \<open>Simple accessors\<close>

definition GetUL :: "('s::len) KLVObject \<Rightarrow> ULPtr" where
  "GetUL k = TheUL k"


definition GetLocation :: "('s::len) KLVObject \<Rightarrow> Position" where
  "GetLocation k = Offset (Source k)"

definition GetKLSize :: "('s::len) KLVObject \<Rightarrow> Int32" where
  "GetKLSize k = (if 0 \<le>s KLSize (Source k) then KLSize (Source k) else KLSize (Dest k))"

definition SetKLSize :: "('s::len) KLVObject \<Rightarrow> Int32 \<Rightarrow> 's KLVObject" where
  "SetKLSize k NewKLSize = k\<lparr>Dest := (Dest k)\<lparr>KLSize := NewKLSize\<rparr>\<rparr>"

definition GetDataBase :: "('s::len) KLVObject \<Rightarrow> Position" where
  "GetDataBase k = DataBase k"


definition GetLength :: "('s::len) KLVObject \<Rightarrow> Length" where
  "GetLength k = ValueLength k"



definition GetData :: "('s::len) KLVObject \<Rightarrow> 's DataChunk" where
  "GetData k = Data k"

subsection \<open>Writing the chunk\<close>

text \<open>
  \<open>WriteDataFromTo\<close> ends in one of two ways: it reports an error and returns 0, or it
  returns what \<open>Base_WriteDataTo(&Data.Data[Start], Offset, n)\<close> returns. The body of
  \<open>Base_WriteDataTo\<close> is not part of the header, so the second way is the call itself:
  \<open>Base_WriteDataTo Start Offset n\<close> stands for the call whose buffer begins at index \<open>Start\<close>
  of the chunk.
\<close>

text \<open>
  The error kinds: a chunk beyond what the platform can address, a malformed BER length, a
  length that does not fit, and the two kinds of reference left without a target.
\<close>

type_synonym UUID = "UInt8 list"

datatype error =
    ChunkTooLarge
  | MalformedLength
  | LengthOverflow
  | DanglingStrongRef UUID
  | DanglingWeakRef UUID

datatype 'n base_write = Base_WriteDataTo Position Position 'n

text \<open>
  The byte count before the sanity check. \<open>Data.Size - Start\<close> and \<open>(Length)Size\<close> widen the
  \<open>size_t\<close> to 64 bits without sign (\<open>ucast\<close>); the comparison with \<open>BytesToWrite\<close> is
  between two signed \<open>Length\<close> values; \<open>Size > 0\<close> is unsigned.
\<close>

definition BytesToWrite :: "('s::len) KLVObject \<Rightarrow> Position \<Rightarrow> 's word \<Rightarrow> Length" where
  "BytesToWrite k Start Sz =
    (let BytesToWrite0 = (ucast (Size (Data k)) :: Length) - Start
     in if 0 < Sz \<and> (ucast Sz :: Length) <s BytesToWrite0 then ucast Sz else BytesToWrite0)"

definition WriteDataFromTo ::
  "('s::len) KLVObject \<Rightarrow> Position \<Rightarrow> Position \<Rightarrow> 's word \<Rightarrow> error + 's word base_write"
where
  "WriteDataFromTo k Offs Start Sz =
    (let n = BytesToWrite k Start Sz
     in if LENGTH('s) div 8 < 8 \<and> 0xffffffff <s n
        then Inl ChunkTooLarge
        else Inr (Base_WriteDataTo Start Offs (ucast n)))"

text \<open>The value returned, for a given behaviour \<open>base\<close> of the base write.\<close>

definition WriteDataFromTo_returns ::
  "(('s::len) word base_write \<Rightarrow> 's word) \<Rightarrow> 's KLVObject \<Rightarrow> Position \<Rightarrow> Position \<Rightarrow> 's word \<Rightarrow> 's word"
where
  "WriteDataFromTo_returns base k Offs Start Sz =
    (case WriteDataFromTo k Offs Start Sz of Inl e \<Rightarrow> 0 | Inr c \<Rightarrow> base c)"

definition WriteData :: "('s::len) KLVObject \<Rightarrow> 's word \<Rightarrow> error + 's word base_write" where
  "WriteData k Sz = WriteDataFromTo k 0 0 Sz"

definition WriteDataFrom :: "('s::len) KLVObject \<Rightarrow> Position \<Rightarrow> 's word \<Rightarrow> error + 's word base_write" where
  "WriteDataFrom k Start Sz = WriteDataFromTo k 0 Start Sz"

definition WriteDataTo :: "('s::len) KLVObject \<Rightarrow> Position \<Rightarrow> 's word \<Rightarrow> error + 's word base_write" where
  "WriteDataTo k Offs Sz = WriteDataFromTo k Offs 0 Sz"

subsection \<open>The chunk inside the value\<close>


text \<open>A cursor built in memory around a four-byte value, all of it in the chunk.\<close>

definition example_cursor :: "('s::len) KLVObject" where
  "example_cursor =
    \<lparr>Source = KLVInfo_new, Dest = KLVInfo_new, TheUL = None, ValueLength = 4,
     Data = \<lparr>Size = 4, Bytes = [1, 2, 3, 4]\<rparr>, DataBase = 0, ReadHandler = None\<rparr>"

text \<open>A cursor as \<open>ReadKL\<close> leaves it: the source KL size is known.\<close>

definition read_cursor :: "('s::len) KLVObject" where
  "read_cursor =
    example_cursor\<lparr>Source := \<lparr>File = Some 7, Offset = 0, OuterLength = 4, KLSize = 20, Valid = True\<rparr>\<rparr>"

section \<open>Partitions (mxflib/partition.h)\<close>

type_synonym UInt64 = "64 word"
type_synonym MDObjectPtr = nat
type_synonym PrimerPtr = "nat option"

text \<open>
  An \<open>MDObjectPtr\<close> to a set is a handle. The values of \<open>UnmatchedRefs\<close> point to the
  reference properties that are not linked yet: such a property is named by the set that
  holds it and by its position among the set's references. \<open>RefTargets\<close>, a \<open>std::map\<close>, is a
  map; \<open>UnmatchedRefs\<close>, a \<open>std::multimap\<close>, is a list of pairs, several of which may share
  a UUID. \<open>BodyLocation\<close> and \<open>NextBodyLocation\<close> are the members \<open>_BodyLocation\<close> and
  \<open>_NextBodyLocation\<close>.
\<close>

type_synonym RefSlot = "MDObjectPtr \<times> nat"

record Partition =
  PartitionPrimer :: PrimerPtr
  AllMetadata :: "MDObjectPtr list"
  TopLevelMetadata :: "MDObjectPtr list"
  RefTargets :: "UUID \<rightharpoonup> MDObjectPtr"
  UnmatchedRefs :: "(UUID \<times> RefSlot) list"
  BodyLocation :: UInt64
  NextBodyLocation :: UInt64

definition ClearMetadata :: "'a Partition_scheme \<Rightarrow> 'a Partition_scheme" where
  "ClearMetadata P =
    P\<lparr>PartitionPrimer := None, AllMetadata := [], TopLevelMetadata := [],
      RefTargets := Map.empty, UnmatchedRefs := []\<rparr>"

definition GetRefTargets :: "'a Partition_scheme \<Rightarrow> UUID \<rightharpoonup> MDObjectPtr" where
  "GetRefTargets P = RefTargets P"

definition GetUnmatchedRefs :: "'a Partition_scheme \<Rightarrow> (UUID \<times> RefSlot) list" where
  "GetUnmatchedRefs P = UnmatchedRefs P"

text \<open>
  \<open>IsMetadataComplete\<close> returns a flag and sends one message to \<open>warning\<close>: the result is the
  flag with the messages sent.
\<close>

definition IsMetadataComplete :: "'a Partition_scheme \<Rightarrow> bool \<times> string list" where
  "IsMetadataComplete P =
    (False, [''Partition::IsMetadataComplete() not yet implemented'' @ [CHR 0x0A]])"

section \<open>Parts of the library outside the two headers\<close>

text \<open>
  The headers declare \<open>ReadMetadata\<close>, \<open>StartElements\<close>, \<open>NextElement\<close> and \<open>SkipFill\<close> and
  use BER lengths, but the bodies are in other files. What follows is written from the
  specification.
\<close>

subsection \<open>BER lengths\<close>

text \<open>
  Modelled from the spec: the big-endian unsigned value of a run of bytes, used by the BER
  decoder ("length = big-endian unsigned of next n bytes"); the codec itself is missing.
\<close>

definition be_value :: "UInt8 list \<Rightarrow> nat" where
  "be_value bs = foldl (\<lambda>a b. a * 256 + unat b) 0 bs"

text \<open>
  Modelled from the spec: the \<open>n\<close> big-endian bytes of a value, with leading zero bytes
  where the value is short ("padding with leading zero bytes is legal"); the codec itself
  is missing.
\<close>

fun be_bytes :: "nat \<Rightarrow> nat \<Rightarrow> UInt8 list" where
  "be_bytes 0 v = []"
| "be_bytes (Suc n) v = be_bytes n (v div 256) @ [of_nat (v mod 256)]"

text \<open>
  Modelled from the spec: the least number of bytes that hold a value ("Encoding picks
  minimum width that fits"); the encoder is missing.
\<close>

fun byte_count :: "nat \<Rightarrow> nat" where
  "byte_count v = (if v < 256 then 1 else Suc (byte_count (v div 256)))"

declare byte_count.simps [simp del]

text \<open>
  Modelled from the spec: the BER length decoder, missing from the sources. "Decoding
  reads one byte b. If b < 0x80, length = b, consumed = 1. Else n = b & 0x7F; must have
  1 <= n <= 8; length = big-endian unsigned of next n bytes; consumed = 1+n. Fails with
  MalformedLength on n = 0, n > 8, or truncation." A value of \<open>2^63\<close> or more does not fit
  the signed length and fails too. The result is the length and the bytes consumed.
\<close>

definition decode_BER :: "UInt8 list \<Rightarrow> error + nat \<times> nat" where
  "decode_BER bs =
    (case bs of
       [] \<Rightarrow> Inl MalformedLength
     | b # rest \<Rightarrow>
         if b < 0x80 then Inr (unat b, 1)
         else let n = unat (b AND 0x7F)
              in if n = 0 \<or> 8 < n \<or> length rest < n then Inl MalformedLength
                 else let v = be_value (take n rest)
                      in if 2 ^ 63 \<le> v then Inl LengthOverflow else Inr (v, 1 + n))"

text \<open>
  Modelled from the spec: the BER length encoder of minimum width, missing from the
  sources: the short form below \<open>0x80\<close>, else \<open>0x80 + n\<close> and the \<open>n\<close> bytes of the length
  ("encode 128 -> [0x81, 0x80]").
\<close>

definition encode_min_width :: "nat \<Rightarrow> UInt8 list" where
  "encode_min_width l =
    (if l < 0x80 then [of_nat l]
     else let n = byte_count l in of_nat (0x80 + n) # be_bytes n l)"

text \<open>
  Modelled from the spec: the width of the minimum-width encoding, counting the first
  byte; the encoder is missing.
\<close>

definition min_width :: "nat \<Rightarrow> nat" where
  "min_width l = (if l < 0x80 then 1 else 1 + byte_count l)"

text \<open>
  Modelled from the spec: the BER length encoder with a width of \<open>w\<close> bytes asked for by
  the caller, missing from the sources ("callers may request a specific width (padding
  with leading zero bytes is legal)"): one byte is the short form, more are \<open>0x80 + (w - 1)\<close>
  and \<open>w - 1\<close> bytes.
\<close>

definition encode_fixed_width :: "nat \<Rightarrow> nat \<Rightarrow> UInt8 list" where
  "encode_fixed_width l w =
    (if w \<le> 1 then [of_nat l] else of_nat (0x80 + (w - 1)) # be_bytes (w - 1) l)"

subsection \<open>Metadata objects and the resolution of references\<close>

text \<open>
  Modelled from the spec: the kind of a reference property ("a strong reference ... or a
  weak reference"); the metadata object class is missing.
\<close>

datatype RefType = RefStrong | RefWeak

text \<open>
  Modelled from the spec: a reference property, "a UUID plus a resolved-target pointer";
  the metadata object class is missing.
\<close>

record Reference =
  Kind :: RefType
  Target :: UUID
  Link :: "MDObjectPtr option"

text \<open>
  Modelled from the spec: a metadata object as far as references go, its optional
  InstanceUID and its reference properties in order; the metadata object class is missing.
\<close>

record MDObject =
  InstanceUID :: "UUID option"
  References :: "Reference list"

text \<open>
  Modelled from the spec: a partition together with the objects its pointers point to
  ("each partition owns an arena of metadata objects; references between metadata objects
  are index handles into that arena"). An \<open>MDObjectPtr\<close> is an index into \<open>Objects\<close>.
\<close>

record Metadata = Partition +
  Objects :: "MDObject list"

text \<open>
  Modelled from the spec: what the parser of a set hands to the resolver, the InstanceUID
  if the set carries one and the kind and UUID of each reference property; the parser is
  missing.
\<close>

record ParsedSet =
  SetInstanceUID :: "UUID option"
  SetReferences :: "(RefType \<times> UUID) list"

text \<open>
  Modelled from the spec: resolving one reference slot to a target ("the reference slot is
  linked"); the resolver is missing. A slot that does not exist is left alone.
\<close>

definition set_link :: "RefSlot \<Rightarrow> MDObjectPtr \<Rightarrow> MDObject list \<Rightarrow> MDObject list" where
  "set_link slot t objs =
    (case slot of (h, i) \<Rightarrow>
       if h < length objs \<and> i < length (References (objs ! h))
       then objs[h := (objs ! h)\<lparr>References :=
                        (References (objs ! h))[i := (References (objs ! h) ! i)\<lparr>Link := Some t\<rparr>]\<rparr>]
       else objs)"

text \<open>
  Modelled from the spec: InstanceUID handling, missing from the sources. "That UUID is
  inserted into RefTargets; any entries in UnmatchedRefs with the same UUID are drained and
  each is resolved to this object." \<open>RefTargets\<close> is a \<open>std::map\<close>: inserting a key that is
  present keeps the old entry.
\<close>

definition register_target :: "MDObjectPtr \<Rightarrow> UUID \<Rightarrow> Metadata \<Rightarrow> Metadata" where
  "register_target h u P =
    (let P1 = (case RefTargets P u of
                 None \<Rightarrow> P\<lparr>RefTargets := (RefTargets P)(u \<mapsto> h)\<rparr>
               | Some t \<Rightarrow> P);
         drained = filter (\<lambda>e. fst e = u) (UnmatchedRefs P1)
     in P1\<lparr>UnmatchedRefs := filter (\<lambda>e. fst e \<noteq> u) (UnmatchedRefs P1),
           Objects := fold (\<lambda>e. set_link (snd e) h) drained (Objects P1)\<rparr>)"

text \<open>
  Modelled from the spec: reference registration, missing from the sources. "The resolver
  looks it up in RefTargets: if present, the reference slot is linked immediately; otherwise
  (UUID, this_object, slot) is inserted into UnmatchedRefs." The reference is given with its
  position \<open>i\<close> in the object \<open>h\<close>.
\<close>

definition register_reference :: "MDObjectPtr \<Rightarrow> nat \<times> RefType \<times> UUID \<Rightarrow> Metadata \<Rightarrow> Metadata" where
  "register_reference h ref P =
    (case ref of (i, k, u) \<Rightarrow>
       (case RefTargets P u of
          Some t \<Rightarrow> P\<lparr>Objects := set_link (h, i) t (Objects P)\<rparr>
        | None \<Rightarrow> P\<lparr>UnmatchedRefs := UnmatchedRefs P @ [(u, (h, i))]\<rparr>))"

text \<open>
  Modelled from the spec: the object built from a parsed set, with no reference resolved
  yet; the metadata object constructor is missing.
\<close>

definition new_object :: "ParsedSet \<Rightarrow> MDObject" where
  "new_object ps =
    \<lparr>InstanceUID = SetInstanceUID ps,
     References = map (\<lambda>(k, u). \<lparr>Kind = k, Target = u, Link = None\<rparr>) (SetReferences ps)\<rparr>"

text \<open>
  Modelled from the spec: one set of the partition taken in, missing from the sources. The
  object joins \<open>AllMetadata\<close>, then its InstanceUID is handled, then its references are
  registered in order.
\<close>

definition add_set :: "ParsedSet \<Rightarrow> Metadata \<Rightarrow> Metadata" where
  "add_set ps P =
    (let h = length (Objects P);
         P1 = P\<lparr>AllMetadata := AllMetadata P @ [h], Objects := Objects P @ [new_object ps]\<rparr>;
         P2 = (case SetInstanceUID ps of None \<Rightarrow> P1 | Some u \<Rightarrow> register_target h u P1)
     in fold (register_reference h) (enumerate 0 (SetReferences ps)) P2)"

text \<open>
  Modelled from the spec: the targets of the resolved strong references of one object;
  the resolver is missing.
\<close>

definition strong_links :: "MDObject \<Rightarrow> MDObjectPtr list" where
  "strong_links obj =
    concat (map (\<lambda>r. case Link r of
                        Some t \<Rightarrow> if Kind r = RefStrong then [t] else []
                      | None \<Rightarrow> [])
                (References obj))"

text \<open>
  Modelled from the spec: "the set of strong-reference targets within AllMetadata"; the
  resolver is missing.
\<close>

definition strong_targets :: "Metadata \<Rightarrow> MDObjectPtr list" where
  "strong_targets P =
    concat (map (\<lambda>h. if h < length (Objects P) then strong_links (Objects P ! h) else [])
                (AllMetadata P))"

text \<open>
  Modelled from the spec: the kind of the reference in a slot, for the report of
  references left dangling; the resolver is missing.
\<close>

definition slot_kind :: "Metadata \<Rightarrow> RefSlot \<Rightarrow> RefType option" where
  "slot_kind P slot =
    (case slot of (h, i) \<Rightarrow>
       if h < length (Objects P) \<and> i < length (References (Objects P ! h))
       then Some (Kind (References (Objects P ! h) ! i)) else None)"

text \<open>
  Modelled from the spec: the report of the finalisation, missing from the sources. "Any
  UnmatchedRefs entry whose UUID is not in RefTargets is either (a) for a weak ref:
  retained as dangling with a warning; (b) for a strong ref: surfaced as
  DanglingStrongRef."
\<close>

definition dangling :: "Metadata \<Rightarrow> error list" where
  "dangling P =
    map (\<lambda>e. if slot_kind P (snd e) = Some RefStrong then DanglingStrongRef (fst e)
              else DanglingWeakRef (fst e))
        (filter (\<lambda>e. RefTargets P (fst e) = None) (UnmatchedRefs P))"

text \<open>
  Modelled from the spec: the finalisation, missing from the sources. "Top-level metadata
  is computed as the complement of the set of strong-reference targets within
  AllMetadata."
\<close>

definition finalise :: "Metadata \<Rightarrow> error list \<times> Metadata" where
  "finalise P =
    (dangling P,
     P\<lparr>TopLevelMetadata := filter (\<lambda>h. h \<notin> set (strong_targets P)) (AllMetadata P)\<rparr>)"

text \<open>
  Modelled from the spec: \<open>ReadMetadata\<close>, declared in partition.h, its body missing. The
  sets read from the file are taken in one after the other, then comes the finalisation. The
  result is the report and the partition.
\<close>

definition ReadMetadata :: "Metadata \<Rightarrow> ParsedSet list \<Rightarrow> error list \<times> Metadata" where
  "ReadMetadata P sets = finalise (fold add_set sets P)"

subsection \<open>The elements of the body\<close>

text \<open>
  Modelled from the spec: the family of a KLV key, as far as the iteration tells keys
  apart (essence, KLV-Fill, partition pack); the key tables are missing.
\<close>

datatype KLVKind = Essence | Fill | PartitionPack

text \<open>
  Modelled from the spec: the key and length of a KLV item in the file; the file class is
  missing.
\<close>

record KLVItem =
  ItemKind :: KLVKind
  ItemKey :: "UInt8 list"
  ItemKLSize :: Int32
  ItemLength :: Length

text \<open>
  Modelled from the spec: the file seen through its KLV items, the item that starts at a
  position, if one can be read there; the file class is missing.
\<close>

type_synonym FileContents = "UInt64 \<Rightarrow> KLVItem option"

text \<open>
  Modelled from the spec: the bytes a KLV item takes, key and length and value; the file
  class is missing.
\<close>

definition item_size :: "KLVItem \<Rightarrow> UInt64" where
  "item_size k = ucast (ItemKLSize k) + ItemLength k"

text \<open>
  Modelled from the spec: \<open>SkipFill\<close>, declared in partition.h ("skip over any KLVFill;
  does not iterate - only copes with single KLVFill"), its body missing: a KLV-Fill at the
  position is stepped over, once.
\<close>

definition SkipFill :: "FileContents \<Rightarrow> UInt64 \<Rightarrow> UInt64" where
  "SkipFill file start =
    (case file start of
       None \<Rightarrow> start
     | Some k \<Rightarrow> if ItemKind k = Fill then start + item_size k else start)"

text \<open>
  Modelled from the spec: whether an element of the body starts at a position, that is an
  item which is not the next partition pack; the body of \<open>StartElements\<close> is missing.
\<close>

definition at_element :: "FileContents \<Rightarrow> UInt64 \<Rightarrow> bool" where
  "at_element file loc =
    (case file loc of None \<Rightarrow> False | Some k \<Rightarrow> ItemKind k \<noteq> PartitionPack)"

text \<open>
  Modelled from the spec: \<open>StartElements\<close>, declared in partition.h, its body missing.
  "StartElements() positions an internal pair (_BodyLocation, _NextBodyLocation) at the
  first essence KLV." \<open>body_start\<close> is the position after the partition's header metadata
  and index table.
\<close>

definition StartElements ::
  "FileContents \<Rightarrow> UInt64 \<Rightarrow> 'a Partition_scheme \<Rightarrow> bool \<times> 'a Partition_scheme" where
  "StartElements file body_start P =
    (let loc = SkipFill file body_start
     in (at_element file loc, P\<lparr>BodyLocation := loc, NextBodyLocation := loc\<rparr>))"

text \<open>
  Modelled from the spec: the cursor that \<open>NextElement\<close> returns for an item, "without
  materialising its value": key, length and place are known, the chunk is empty. The body
  of \<open>NextElement\<close> is missing.
\<close>

definition element_cursor :: "MXFFilePtr \<Rightarrow> UInt64 \<Rightarrow> KLVItem \<Rightarrow> ('s::len) KLVObject" where
  "element_cursor f loc k =
    \<lparr>Source = \<lparr>File = f, Offset = loc, OuterLength = ItemLength k, KLSize = ItemKLSize k, Valid = True\<rparr>,
     Dest = \<lparr>File = f, Offset = loc, OuterLength = ItemLength k, KLSize = ItemKLSize k, Valid = True\<rparr>,
     TheUL = Some (ItemKey k), ValueLength = ItemLength k,
     Data = \<lparr>Size = 0, Bytes = []\<rparr>, DataBase = 0, ReadHandler = None\<rparr>"

text \<open>
  Modelled from the spec: \<open>NextElement\<close>, declared in partition.h, its body missing.
  "NextElement() returns a KLV cursor for the current element, then advances _BodyLocation
  = _NextBodyLocation and computes the new _NextBodyLocation by skipping (a) any
  interleaved KLV-Fill items (single-fill only) and (b) the current element's value.
  Returns a null cursor when no more essence items precede the next partition pack."
  The element is the one at \<open>_NextBodyLocation\<close> (the header: "goto _NextBodyLocation");
  \<open>None\<close> is the null cursor.
\<close>

definition NextElement ::
  "MXFFilePtr \<Rightarrow> FileContents \<Rightarrow> 'a Partition_scheme \<Rightarrow> ('s::len) KLVObject option \<times> 'a Partition_scheme" where
  "NextElement f file P =
    (let loc = NextBodyLocation P
     in case file loc of
          None \<Rightarrow> (None, P)
        | Some k \<Rightarrow>
            if ItemKind k = PartitionPack then (None, P)
            else (Some (element_cursor f loc k),
                  P\<lparr>BodyLocation := loc, NextBodyLocation := SkipFill file (loc + item_size k)\<rparr>))"

text \<open>The cursors that \<open>n\<close> calls of \<open>NextElement\<close> return, one after the other.\<close>

fun elements ::
  "nat \<Rightarrow> MXFFilePtr \<Rightarrow> FileContents \<Rightarrow> 'a Partition_scheme \<Rightarrow> ('s::len) KLVObject option list" where
  "elements 0 f file P = []"
| "elements (Suc n) f file P =
    (case NextElement f file P of (c, P') \<Rightarrow> c # elements n f file P')"

section \<open>Notions used in the statements\<close>

subsection \<open>Resolved partitions\<close>

text \<open>The targets that the references of an object are resolved to.\<close>

definition links_of :: "MDObject \<Rightarrow> MDObjectPtr set" where
  "links_of obj = {t. \<exists>r \<in> set (References obj). Link r = Some t}"

text \<open>
  What the resolver keeps true: no unmatched reference has a registered target, every
  registered target is an object of the partition, and the objects of the partition exist
  and refer to objects of the partition only.
\<close>

definition resolver_inv :: "Metadata \<Rightarrow> bool" where
  "resolver_inv P \<longleftrightarrow>
    (\<forall>e \<in> set (UnmatchedRefs P). RefTargets P (fst e) = None) \<and>
    ran (RefTargets P) \<subseteq> set (AllMetadata P) \<and>
    (\<forall>h \<in> set (AllMetadata P). h < length (Objects P) \<and> links_of (Objects P ! h) \<subseteq> set (AllMetadata P))"

definition valid_slot :: "MDObject list \<Rightarrow> RefSlot \<Rightarrow> bool" where
  "valid_slot objs slot =
    (case slot of (h, i) \<Rightarrow> h < length objs \<and> i < length (References (objs ! h)))"

definition link_at :: "MDObject list \<Rightarrow> RefSlot \<Rightarrow> MDObjectPtr option" where
  "link_at objs slot = (case slot of (h, i) \<Rightarrow> Link (References (objs ! h) ! i))"

text \<open>
  A partition with nothing in it, and two sets in the order of the file: a parent whose
  strong reference names the child that follows, and the child, with a weak reference back
  and a weak reference to a UUID that no set carries.
\<close>

definition empty_metadata :: Metadata where
  "empty_metadata =
    \<lparr>PartitionPrimer = None, AllMetadata = [], TopLevelMetadata = [], RefTargets = Map.empty,
     UnmatchedRefs = [], BodyLocation = 0, NextBodyLocation = 0, Objects = []\<rparr>"

definition uuid_A :: UUID where "uuid_A = replicate 15 0 @ [1]"
definition uuid_B :: UUID where "uuid_B = replicate 15 0 @ [2]"
definition uuid_C :: UUID where "uuid_C = replicate 15 0 @ [3]"

definition forward_reference :: "ParsedSet list" where
  "forward_reference =
    [\<lparr>SetInstanceUID = Some uuid_A, SetReferences = [(RefStrong, uuid_B)]\<rparr>,
     \<lparr>SetInstanceUID = Some uuid_B, SetReferences = [(RefWeak, uuid_A), (RefWeak, uuid_C)]\<rparr>]"

text \<open>A single set whose strong reference names the set's own InstanceUID.\<close>

definition self_reference :: "ParsedSet list" where
  "self_reference = [\<lparr>SetInstanceUID = Some uuid_A, SetReferences = [(RefStrong, uuid_A)]\<rparr>]"

text \<open>
  The targets of the resolved strong references of the objects of \<open>AllMetadata\<close> other
  than \<open>t\<close>, and the objects of \<open>AllMetadata\<close> that no other object refers to strongly:
  "the subset not reachable as a strong-reference child from any other in-partition
  object".
\<close>

definition strong_targets_of_others :: "Metadata \<Rightarrow> MDObjectPtr \<Rightarrow> MDObjectPtr list" where
  "strong_targets_of_others P t =
    concat (map (\<lambda>h. if h \<noteq> t \<and> h < length (Objects P) then strong_links (Objects P ! h) else [])
                (AllMetadata P))"

definition not_owned_by_another :: "Metadata \<Rightarrow> MDObjectPtr list" where
  "not_owned_by_another P =
    filter (\<lambda>t. t \<notin> set (strong_targets_of_others P t)) (AllMetadata P)"

subsection \<open>Essence regions\<close>

text \<open>The items lie in the file one after the other from a position on.\<close>

fun laid_out :: "FileContents \<Rightarrow> UInt64 \<Rightarrow> KLVItem list \<Rightarrow> bool" where
  "laid_out file p [] = True"
| "laid_out file p (k # ks) = (file p = Some k \<and> laid_out file (p + item_size k) ks)"

fun end_of :: "UInt64 \<Rightarrow> KLVItem list \<Rightarrow> UInt64" where
  "end_of p [] = p"
| "end_of p (k # ks) = end_of (p + item_size k) ks"

text \<open>
  An essence region with single fills: each essence item comes with the KLV-Fill that
  follows it, if one does.
\<close>

type_synonym EssenceRegion = "(KLVItem \<times> KLVItem option) list"

definition items_of :: "EssenceRegion \<Rightarrow> KLVItem list" where
  "items_of region = concat (map (\<lambda>(e, fill). e # (case fill of None \<Rightarrow> [] | Some x \<Rightarrow> [x])) region)"

definition single_fills :: "EssenceRegion \<Rightarrow> bool" where
  "single_fills region \<longleftrightarrow>
    (\<forall>(e, fill) \<in> set region. ItemKind e = Essence \<and> (\<forall>x. fill = Some x \<longrightarrow> ItemKind x = Fill))"

text \<open>The region ends where the file ends or the next partition pack starts.\<close>

definition region_ends :: "FileContents \<Rightarrow> UInt64 \<Rightarrow> bool" where
  "region_ends file loc =
    (case file loc of None \<Rightarrow> True | Some k \<Rightarrow> ItemKind k = PartitionPack)"

text \<open>The cursors of the essence items of a region that starts at \<open>p\<close>, in file order.\<close>

fun cursors :: "MXFFilePtr \<Rightarrow> UInt64 \<Rightarrow> EssenceRegion \<Rightarrow> ('s::len) KLVObject list" where
  "cursors f p [] = []"
| "cursors f p ((e, fill) # region) =
    element_cursor f p e #
    cursors f (p + item_size e + (case fill of None \<Rightarrow> 0 | Some x \<Rightarrow> item_size x)) region"

text \<open>
  Two essence items with a KLV-Fill of 17 bytes between them, a partition pack after them,
  and the file that holds them from position 1000 on.
\<close>

definition item_A :: KLVItem where
  "item_A = \<lparr>ItemKind = Essence, ItemKey = replicate 15 6 @ [1], ItemKLSize = 20, ItemLength = 100\<rparr>"

definition item_B :: KLVItem where
  "item_B = \<lparr>ItemKind = Essence, ItemKey = replicate 15 6 @ [2], ItemKLSize = 20, ItemLength = 50\<rparr>"

definition fill_17 :: KLVItem where
  "fill_17 = \<lparr>ItemKind = Fill, ItemKey = replicate 15 6 @ [3], ItemKLSize = 17, ItemLength = 0\<rparr>"

definition next_pack :: KLVItem where
  "next_pack = \<lparr>ItemKind = PartitionPack, ItemKey = replicate 15 6 @ [4], ItemKLSize = 20, ItemLength = 88\<rparr>"

definition example_file :: FileContents where
  "example_file =
    [1000 \<mapsto> item_A, 1120 \<mapsto> fill_17, 1137 \<mapsto> item_B, 1207 \<mapsto> next_pack]"

definition double_fill_file :: FileContents where
  "double_fill_file =
    [1000 \<mapsto> item_A, 1120 \<mapsto> fill_17, 1137 \<mapsto> fill_17, 1154 \<mapsto> item_B, 1224 \<mapsto> next_pack]"

section \<open>Properties of KLV objects\<close>

subsection \<open>Reading words as integers\<close>

lemma uint_less_of_unat: "unat (x::'a::len word) < n \<Longrightarrow> uint x < int n"
  by transfer simp

lemma uint_lt_63: "unat (x::'a::len word) < 2 ^ 63 \<Longrightarrow> uint x < 2 ^ 63"
  using uint_less_of_unat [of x "2 ^ 63"] by simp

lemma sint_of_small: 
  fixes w :: "64 word"
  assumes "uint w < 2 ^ 63"
  shows "sint w = uint w"
proof -
  have "- (2 ^ 63) \<le> uint w" by (rule order_trans [OF _ uint_ge_0]) simp
  with assms have "signed_take_bit 63 (uint w) = uint w"
    by (intro signed_take_bit_int_eq_self) simp_all
  then show ?thesis by (simp add: sint_uint)
qed

lemma uint_ucast_size:
  fixes x :: "'s::len word"
  assumes "LENGTH('s) \<le> 64"
  shows "uint (ucast x :: 64 word) = uint x"
proof -
  have "uint x < 2 ^ LENGTH('s)" by (rule uint_lt2p)
  also have "(2::int) ^ LENGTH('s) \<le> 2 ^ 64" using assms by (intro power_increasing) simp_all
  finally have "uint x < 2 ^ 64" .
  then show ?thesis by (simp add: unsigned_ucast_eq take_bit_int_eq_self)
qed

lemma sint_ucast_size:
  fixes x :: "'s::len word"
  assumes "LENGTH('s) \<le> 64" and "unat x < 2 ^ 63"
  shows "sint (ucast x :: 64 word) = uint x"
proof -
  have u: "uint (ucast x :: 64 word) = uint x" using assms(1) by (rule uint_ucast_size)
  have "uint x < 2 ^ 63" using assms(2) by (rule uint_lt_63)
  then have "uint (ucast x :: 64 word) < 2 ^ 63" using u by simp
  then have "sint (ucast x :: 64 word) = uint (ucast x :: 64 word)" by (rule sint_of_small)
  with u show ?thesis by simp
qed

lemma sint_avail:
  fixes S :: "'s::len word" and Start :: "64 word"
  assumes "LENGTH('s) \<le> 64" and "unat S < 2 ^ 63"
      and "0 \<le>s Start" and "Start \<le>s ucast S"
  shows "sint ((ucast S :: 64 word) - Start) = uint S - sint Start"
    and "0 \<le> sint Start" and "sint Start \<le> uint S"
proof -
  have s: "sint (ucast S :: 64 word) = uint S" using assms(1,2) by (rule sint_ucast_size)
  show a: "0 \<le> sint Start" using assms(3) by (simp add: word_sle_eq)
  show b: "sint Start \<le> uint S" using assms(4) s by (simp add: word_sle_eq)
  have "uint S < 2 ^ 63" using assms(2) by (rule uint_lt_63)
  with a b have "- (2 ^ 63) \<le> uint S - sint Start" "uint S - sint Start < 2 ^ 63"
    by linarith+
  then have "signed_take_bit 63 (uint S - sint Start) = uint S - sint Start"
    by (rule signed_take_bit_int_eq_self)
  then show "sint ((ucast S :: 64 word) - Start) = uint S - sint Start"
    by (simp add: sint_word_diff s)
qed

lemma uint_of_nonneg:
  fixes n :: "64 word"
  assumes "0 \<le> sint n"
  shows "uint n = sint n"
proof (cases "uint n < 2 ^ 63")
  case True
  then show ?thesis by (simp add: sint_of_small)
next
  case False
  then have "2 ^ 63 \<le> uint n" by simp
  then have "signed_take_bit 63 (uint n) \<le> uint n - 2 ^ Suc 63"
    by (rule signed_take_bit_int_less_eq)
  then have "signed_take_bit 63 (uint n) \<le> uint n - 2 ^ 64"
    by (simp only: power_Suc) simp
  moreover have "uint n < 2 ^ 64" using uint_lt2p [of n] by simp
  moreover have "sint n = signed_take_bit 63 (uint n)" by (simp add: sint_uint)
  ultimately have "sint n < 0" by linarith
  with assms show ?thesis by linarith
qed

lemma uint_ucast_down:
  fixes n :: "64 word"
  assumes "0 \<le> sint n" and "sint n < 2 ^ LENGTH('s::len)"
  shows "uint (ucast n :: 's word) = sint n"
proof -
  have u: "uint n = sint n" using assms(1) by (rule uint_of_nonneg)
  have "take_bit LENGTH('s) (uint n) = uint n"
    using assms u by (simp add: take_bit_int_eq_self)
  with u show ?thesis by (simp add: unsigned_ucast_eq)
qed

lemma nat_min_diff:
  "0 \<le> (a::int) \<Longrightarrow> 0 \<le> s \<Longrightarrow> s \<le> t \<Longrightarrow> nat (min a (t - s)) = min (nat a) (nat t - nat s)"
  by arith

lemma sint_BytesToWrite:
  fixes k :: "('s::len) KLVObject"
  assumes len: "LENGTH('s) \<le> 64"
      and S: "unat (Size (Data k)) < 2 ^ 63"
      and lo: "0 \<le>s Start" and hi: "Start \<le>s ucast (Size (Data k))"
      and Sz: "unat Sz < 2 ^ 63"
  shows "sint (BytesToWrite k Start Sz) =
          (if Sz = 0 then uint (Size (Data k)) - sint Start
           else min (uint Sz) (uint (Size (Data k)) - sint Start))"
proof -
  have b0: "sint ((ucast (Size (Data k)) :: Length) - Start) = uint (Size (Data k)) - sint Start"
    using len S lo hi by (rule sint_avail(1))
  have sz: "sint (ucast Sz :: Length) = uint Sz"
    using len Sz by (rule sint_ucast_size)
  show ?thesis
  proof (cases "Sz = 0")
    case True
    then show ?thesis by (simp add: BytesToWrite_def b0)
  next
    case False
    then have "0 < Sz" by (simp add: word_greater_zero_iff)
    then show ?thesis
      using False by (simp add: BytesToWrite_def Let_def word_sless_alt b0 sz min_def)
  qed
qed

lemma minus_one_32: "(- 1 :: 32 word) = 4294967295" by simp
lemma minus_one_64: "(- 1 :: 64 word) = 18446744073709551615" by simp

lemma SetDestination_eq_None_iff:
  "SetDestination Tell k Fil Location = None \<longleftrightarrow> Location <s 0 \<and> Fil = None"
  by (auto simp: SetDestination_def Let_def split: option.splits)

lemma SetSource_eq_None_iff:
  "SetSource Tell k Fil Location = None \<longleftrightarrow> Location <s 0 \<and> Fil = None"
  by (auto simp: SetSource_def Let_def split: option.splits)

subsection \<open>The bytes handed to the base write\<close>

text \<open>
  C1 (amended). Let the chunk hold \<open>S < 2^63\<close> bytes and let \<open>0 \<le> Start \<le> S\<close>, on a platform
  whose \<open>size_t\<close> has 32 or 64 bits. For a requested size below \<open>2^63\<close>, \<open>WriteDataFromTo\<close>
  calls the base write with the buffer at index \<open>Start\<close> of the chunk and with a byte count of
  \<open>S - Start\<close> when the size is 0 (zero asks for all available bytes), and of
  \<open>min size (S - Start)\<close> otherwise. On the 32-bit platform every size is below \<open>2^63\<close>,
  the all-available value \<open>(size_t)-1\<close> included.
\<close>

theorem WriteDataFromTo_clamps:
  fixes k :: "('s::len) KLVObject"
  assumes plat: "LENGTH('s) = 32 \<or> LENGTH('s) = 64"
      and S: "unat (Size (Data k)) < 2 ^ 63"
      and lo: "0 \<le>s Start" and hi: "Start \<le>s ucast (Size (Data k))"
      and Sz: "unat Sz < 2 ^ 63"
  shows "\<exists>n. WriteDataFromTo k Offs Start Sz = Inr (Base_WriteDataTo Start Offs n) \<and>
             unat n = (if Sz = 0 then unat (Size (Data k)) - nat (sint Start)
                       else min (unat Sz) (unat (Size (Data k)) - nat (sint Start)))"
proof -
  let ?S = "Size (Data k)"
  let ?b = "BytesToWrite k Start Sz"
  let ?v = "if Sz = 0 then uint ?S - sint Start else min (uint Sz) (uint ?S - sint Start)"
  have len: "LENGTH('s) \<le> 64" using plat by auto
  have v: "sint ?b = ?v" using len S lo hi Sz by (rule sint_BytesToWrite)
  have s0: "0 \<le> sint Start" and s1: "sint Start \<le> uint ?S"
    using sint_avail(2,3) [OF len S lo hi] by simp_all
  have nonneg: "0 \<le> sint ?b" using v s0 s1 by (simp add: min_def)
  have "sint ?b \<le> uint ?S" using v s0 s1 by (simp add: min_def)
  also have "uint ?S < 2 ^ LENGTH('s)" by (rule uint_lt2p)
  finally have small: "sint ?b < 2 ^ LENGTH('s)" .
  have noerr: "\<not> (LENGTH('s) div 8 < 8 \<and> 0xffffffff <s ?b)"
  proof
    assume a: "LENGTH('s) div 8 < 8 \<and> 0xffffffff <s ?b"
    with plat have l32: "LENGTH('s) = 32" by auto
    have "sint (0xffffffff :: Length) = 4294967295" by simp
    with a have "4294967295 < sint ?b" by (simp add: word_sless_alt)
    moreover have "sint ?b < 2 ^ 32" using small l32 by simp
    ultimately show False by simp
  qed
  have u: "uint (ucast ?b :: 's word) = sint ?b" using nonneg small by (rule uint_ucast_down)
  have a1: "unat ?S = nat (uint ?S)" by (rule unat_eq_nat_uint)
  have a2: "unat Sz = nat (uint Sz)" by (rule unat_eq_nat_uint)
  have a3: "unat (ucast ?b :: 's word) = nat (sint ?b)"
    using u unat_eq_nat_uint [of "ucast ?b :: 's word"] by (simp only:)
  have p: "0 \<le> uint Sz" by (rule uint_ge_0)
  have n: "unat (ucast ?b :: 's word) = (if Sz = 0 then unat ?S - nat (sint Start)
                       else min (unat Sz) (unat ?S - nat (sint Start)))"
  proof (cases "Sz = 0")
    case True
    with v have "sint ?b = uint ?S - sint Start" by (simp only: if_True simp_thms)
    with s0 s1 have "nat (sint ?b) = nat (uint ?S) - nat (sint Start)" by linarith
    then have "unat (ucast ?b :: 's word) = unat ?S - nat (sint Start)" by (simp only: a1 a3)
    then show ?thesis by (simp only: if_P [OF True])
  next
    case False
    with v have "sint ?b = min (uint Sz) (uint ?S - sint Start)" by (simp only: if_False simp_thms)
    with s0 s1 p have "nat (sint ?b) = min (nat (uint Sz)) (nat (uint ?S) - nat (sint Start))"
      by (simp only: nat_min_diff)
    then have "unat (ucast ?b :: 's word) = min (unat Sz) (unat ?S - nat (sint Start))"
      by (simp only: a1 a2 a3)
    then show ?thesis by (simp only: if_not_P [OF False])
  qed
  have "WriteDataFromTo k Offs Start Sz = Inr (Base_WriteDataTo Start Offs (ucast ?b))"
    using noerr by (simp add: WriteDataFromTo_def Let_def)
  with n show ?thesis by blast
qed

theorem WriteDataFromTo_clamps_witness:
  "(0 :: Position) \<le>s 1 \<and> (1 :: Position) \<le>s ucast (Size (Data (example_cursor :: 32 KLVObject))) \<and>
   (\<exists>n. WriteDataFromTo (example_cursor :: 32 KLVObject) 0 1 (- 1) = Inr (Base_WriteDataTo 1 0 n) \<and> unat n = 3) \<and>
   (\<exists>n. WriteDataFromTo (example_cursor :: 64 KLVObject) 0 1 2 = Inr (Base_WriteDataTo 1 0 n) \<and> unat n = 2)"
proof -
  have p32: "LENGTH(32) = 32 \<or> LENGTH(32) = 64" by simp
  have p64: "LENGTH(64) = 32 \<or> LENGTH(64) = 64" by simp
  have S32: "unat (Size (Data (example_cursor :: 32 KLVObject))) < 2 ^ 63"
    by (simp add: example_cursor_def)
  have S64: "unat (Size (Data (example_cursor :: 64 KLVObject))) < 2 ^ 63"
    by (simp add: example_cursor_def)
  have lo: "(0 :: Position) \<le>s 1" by (simp add: word_sle_eq)
  have hi32: "(1 :: Position) \<le>s ucast (Size (Data (example_cursor :: 32 KLVObject)))"
    by (simp add: example_cursor_def word_sle_eq)
  have hi64: "(1 :: Position) \<le>s ucast (Size (Data (example_cursor :: 64 KLVObject)))"
    by (simp add: example_cursor_def word_sle_eq)
  have z32: "unat (- 1 :: 32 word) < 2 ^ 63" by (simp add: minus_one_32)
  have z64: "unat (2 :: 64 word) < 2 ^ 63" by simp
  have n32: "(if (- 1 :: 32 word) = 0
              then unat (Size (Data (example_cursor :: 32 KLVObject))) - nat (sint (1 :: Position))
              else min (unat (- 1 :: 32 word))
                    (unat (Size (Data (example_cursor :: 32 KLVObject))) - nat (sint (1 :: Position)))) = 3"
    by (simp add: example_cursor_def minus_one_32)
  have n64: "(if (2 :: 64 word) = 0
              then unat (Size (Data (example_cursor :: 64 KLVObject))) - nat (sint (1 :: Position))
              else min (unat (2 :: 64 word))
                    (unat (Size (Data (example_cursor :: 64 KLVObject))) - nat (sint (1 :: Position)))) = 2"
    by (simp add: example_cursor_def)
  have a: "\<exists>n. WriteDataFromTo (example_cursor :: 32 KLVObject) 0 1 (- 1) = Inr (Base_WriteDataTo 1 0 n) \<and> unat n = 3"
    using WriteDataFromTo_clamps [OF p32 S32 lo hi32 z32, of 0] by (simp only: n32)
  have b: "\<exists>n. WriteDataFromTo (example_cursor :: 64 KLVObject) 0 1 2 = Inr (Base_WriteDataTo 1 0 n) \<and> unat n = 2"
    using WriteDataFromTo_clamps [OF p64 S64 lo hi64 z64, of 0] by (simp only: n64)
  from lo hi32 a b show ?thesis by blast
qed

text \<open>
  C1 as stated fails for the size 0: the chunk of four bytes is written whole, where
  \<open>min 0 (4 - 0)\<close> is no byte at all.
\<close>

theorem WriteDataFromTo_zero_size_counterexample:
  "(0 :: Position) \<le>s 0 \<and> (0 :: Position) \<le>s ucast (Size (Data (example_cursor :: 64 KLVObject))) \<and>
   WriteDataFromTo (example_cursor :: 64 KLVObject) 0 0 0 = Inr (Base_WriteDataTo 0 0 4) \<and>
   (4 :: 64 word) \<noteq> of_nat (min (unat (0 :: 64 word))
      (unat (Size (Data (example_cursor :: 64 KLVObject))) - nat (sint (0 :: Position))))"
  by (simp add: example_cursor_def WriteDataFromTo_def BytesToWrite_def word_sle_eq word_sless_alt)

text \<open>
  With a 64-bit \<open>size_t\<close> the value \<open>(size_t)-1\<close> reads as the \<open>Length\<close> \<open>-1\<close>, which is below
  the bytes available: the count handed to the base write is \<open>(size_t)-1\<close> itself. With a
  32-bit \<open>size_t\<close> it reads as \<open>2^32 - 1\<close> and the four bytes available are written.
\<close>

lemma WriteDataFromTo_sentinel_64:
  "WriteDataFromTo (example_cursor :: 64 KLVObject) 0 0 (- 1) = Inr (Base_WriteDataTo 0 0 (- 1))"
  by (simp add: example_cursor_def WriteDataFromTo_def BytesToWrite_def word_sle_eq word_sless_alt minus_one_64)

lemma WriteDataFromTo_sentinel_32:
  "WriteDataFromTo (example_cursor :: 32 KLVObject) 0 0 (- 1) = Inr (Base_WriteDataTo 0 0 4)"
  by (simp add: example_cursor_def WriteDataFromTo_def BytesToWrite_def word_sle_eq word_sless_alt minus_one_32)

text \<open>
  C2. Where \<open>size_t\<close> has fewer than 8 bytes and the byte count computed exceeds
  \<open>0xffffffff\<close>, \<open>WriteDataFromTo\<close> ends with the error, makes no call of the base write and
  returns 0; where \<open>size_t\<close> has 8 bytes it never ends with the error.
\<close>

theorem WriteDataFromTo_ChunkTooLarge:
  fixes k :: "('s::len) KLVObject" and k64 :: "64 KLVObject"
  shows "(LENGTH('s) div 8 < 8 \<and> 0xffffffff <s BytesToWrite k Start Sz \<longrightarrow>
            WriteDataFromTo k Offs Start Sz = Inl ChunkTooLarge \<and>
            WriteDataFromTo_returns base k Offs Start Sz = 0) \<and>
         WriteDataFromTo k64 Offs64 Start64 Sz64 \<noteq> Inl ChunkTooLarge"
  by (simp add: WriteDataFromTo_def WriteDataFromTo_returns_def Let_def)

theorem WriteDataFromTo_ChunkTooLarge_witness:
  "LENGTH(32) div 8 < (8 :: nat) \<and>
   0xffffffff <s BytesToWrite (example_cursor :: 32 KLVObject) (- 0x100000000) 0 \<and>
   WriteDataFromTo (example_cursor :: 32 KLVObject) 0 (- 0x100000000) 0 = Inl ChunkTooLarge \<and>
   WriteDataFromTo_returns (\<lambda>c. 1) (example_cursor :: 32 KLVObject) 0 (- 0x100000000) 0 = 0"
proof -
  have a: "LENGTH(32) div 8 < (8 :: nat)" by simp
  have b: "0xffffffff <s BytesToWrite (example_cursor :: 32 KLVObject) (- 0x100000000) 0"
    by (simp add: BytesToWrite_def example_cursor_def word_sless_alt)
  from a b WriteDataFromTo_ChunkTooLarge [of "example_cursor :: 32 KLVObject" "- 0x100000000" 0 0 "\<lambda>c. 1"]
  show ?thesis by blast
qed

subsection \<open>The setters do not check\<close>




subsection \<open>Source and destination records\<close>

text \<open>
  C8. \<open>SetSource\<close> has a result unless it asks a NULL file for its position. It marks the
  source valid, stores the file, and stores \<open>Location\<close>, or the file's position when
  \<open>Location < 0\<close>; the source's \<open>OuterLength\<close> and \<open>KLSize\<close> stay. A destination that is not
  valid becomes a copy of the whole source record; a valid one, and so one set by
  \<open>SetDestination\<close>, keeps every field. Nothing else in the cursor changes.
\<close>

theorem SetSource_aliases_destination:
  fixes k :: "('s::len) KLVObject"
  shows "(SetSource Tell k Fil Location = None \<longleftrightarrow> Location <s 0 \<and> Fil = None) \<and>
         (\<forall>k'. SetSource Tell k Fil Location = Some k' \<longrightarrow>
            Valid (Source k') \<and> File (Source k') = Fil \<and>
            (\<not> Location <s 0 \<longrightarrow> Offset (Source k') = Location) \<and>
            (\<forall>h. Location <s 0 \<and> Fil = Some h \<longrightarrow> Offset (Source k') = Tell h) \<and>
            OuterLength (Source k') = OuterLength (Source k) \<and>
            KLSize (Source k') = KLSize (Source k) \<and>
            (\<not> Valid (Dest k) \<longrightarrow> Dest k' = Source k') \<and>
            (Valid (Dest k) \<longrightarrow> Dest k' = Dest k) \<and>
            (\<forall>Tell0 k0 Fil0 Location0.
               SetDestination Tell0 k0 Fil0 Location0 = Some k \<longrightarrow> Dest k' = Dest k) \<and>
            k'\<lparr>Source := Source k, Dest := Dest k\<rparr> = k)"
  by (auto simp: SetSource_def SetDestination_def Let_def split: if_splits option.splits)

theorem SetSource_aliases_destination_witness:
  "\<exists>k1 k2 k3.
     SetSource (\<lambda>h. 100) (example_cursor :: 64 KLVObject) (Some 7) (- 1) = Some k1 \<and>
     \<not> Valid (Dest (example_cursor :: 64 KLVObject)) \<and>
     Source k1 = \<lparr>File = Some 7, Offset = 100, OuterLength = 0, KLSize = - 1, Valid = True\<rparr> \<and>
     Dest k1 = Source k1 \<and>
     SetDestination (\<lambda>h. 100) (example_cursor :: 64 KLVObject) (Some 8) 32 = Some k2 \<and>
     SetSource (\<lambda>h. 100) k2 (Some 7) 48 = Some k3 \<and>
     Offset (Source k3) = 48 \<and>
     Dest k3 = Dest k2 \<and> File (Dest k3) = Some 8 \<and> Offset (Dest k3) = 32"
proof -
  let ?k = "example_cursor :: 64 KLVObject"
  let ?T = "\<lambda>h :: nat. 100 :: Position"
  have "SetSource ?T ?k (Some 7) (- 1) \<noteq> None"
    by (simp add: SetSource_eq_None_iff)
  then obtain k1 where k1: "SetSource ?T ?k (Some 7) (- 1) = Some k1" by blast
  have "SetDestination ?T ?k (Some 8) 32 \<noteq> None"
    by (simp add: SetDestination_eq_None_iff)
  then obtain k2 where k2: "SetDestination ?T ?k (Some 8) 32 = Some k2" by blast
  have "SetSource ?T k2 (Some 7) 48 \<noteq> None"
    by (simp add: SetSource_eq_None_iff)
  then obtain k3 where k3: "SetSource ?T k2 (Some 7) 48 = Some k3" by blast
  have nv: "\<not> Valid (Dest ?k)" by (simp add: example_cursor_def KLVInfo_new_def)
  have neg: "(- 1 :: Position) <s 0" by (simp add: word_sless_alt)
  have pos: "\<not> (48 :: Position) <s 0" by (simp add: word_sless_alt)
  have old: "OuterLength (Source ?k) = 0" "KLSize (Source ?k) = - 1"
    by (simp_all add: example_cursor_def KLVInfo_new_def)
  from SetSource_aliases_destination [of ?T ?k "Some 7" "- 1"] k1 nv neg old
  have s1: "Valid (Source k1)" "File (Source k1) = Some 7" "Offset (Source k1) = 100"
    "OuterLength (Source k1) = 0" "KLSize (Source k1) = - 1" "Dest k1 = Source k1"
    by auto
  then have r1: "Source k1 = \<lparr>File = Some 7, Offset = 100, OuterLength = 0, KLSize = - 1, Valid = True\<rparr>"
    by (cases "Source k1") simp
  from SetSource_aliases_destination [of ?T k2 "Some 7" 48] k3 k2 pos
  have s3: "Offset (Source k3) = 48" "Dest k3 = Dest k2" by blast+
  have d2: "File (Dest k2) = Some 8" "Offset (Dest k2) = 32"
    using k2 by (auto simp: SetDestination_def Let_def word_sless_alt)
  from k1 k2 k3 nv r1 s1(6) s3 d2 show ?thesis by auto
qed

text \<open>
  C10. \<open>SetKLSize\<close> changes the destination's \<open>KLSize\<close> and nothing else. \<open>GetKLSize\<close> is
  the source's \<open>KLSize\<close> when that is not negative and the destination's otherwise, so
  on a cursor whose source \<open>KLSize\<close> is known \<open>SetKLSize\<close> does not change what \<open>GetKLSize\<close>
  returns.
\<close>

theorem SetKLSize_only_destination:
  fixes k :: "('s::len) KLVObject"
  shows "Source (SetKLSize k n) = Source k \<and>
         KLSize (Dest (SetKLSize k n)) = n \<and>
         (Dest (SetKLSize k n))\<lparr>KLSize := KLSize (Dest k)\<rparr> = Dest k \<and>
         (SetKLSize k n)\<lparr>Dest := Dest k\<rparr> = k \<and>
         GetKLSize k = (if 0 \<le> sint (KLSize (Source k)) then KLSize (Source k) else KLSize (Dest k)) \<and>
         (0 \<le> sint (KLSize (Source k)) \<longrightarrow> GetKLSize (SetKLSize k n) = GetKLSize k) \<and>
         (sint (KLSize (Source k)) < 0 \<longrightarrow> GetKLSize (SetKLSize k n) = n)"
  by (auto simp: SetKLSize_def GetKLSize_def word_sle_eq)

theorem SetKLSize_only_destination_witness:
  "0 \<le> sint (KLSize (Source (read_cursor :: 64 KLVObject))) \<and>
   GetKLSize (read_cursor :: 64 KLVObject) = 20 \<and>
   GetKLSize (SetKLSize (read_cursor :: 64 KLVObject) 25) = 20 \<and>
   KLSize (Dest (SetKLSize (read_cursor :: 64 KLVObject) 25)) = 25 \<and>
   sint (KLSize (Source (example_cursor :: 64 KLVObject))) < 0 \<and>
   GetKLSize (SetKLSize (example_cursor :: 64 KLVObject) 25) = 25"
proof -
  have a: "0 \<le> sint (KLSize (Source (read_cursor :: 64 KLVObject)))"
    by (simp add: read_cursor_def)
  have b: "GetKLSize (read_cursor :: 64 KLVObject) = 20"
    by (simp add: read_cursor_def GetKLSize_def word_sle_eq)
  have c: "sint (KLSize (Source (example_cursor :: 64 KLVObject))) < 0"
    by (simp add: example_cursor_def KLVInfo_new_def)
  from a b c SetKLSize_only_destination [of "read_cursor :: 64 KLVObject" 25]
    SetKLSize_only_destination [of "example_cursor :: 64 KLVObject" 25]
  show ?thesis by simp
qed

section \<open>Properties of partitions\<close>

text \<open>
  C9. In every state of the partition \<open>IsMetadataComplete\<close> returns false, and it sends the
  one warning that it is not implemented.
\<close>

theorem IsMetadataComplete_always_false:
  "fst (IsMetadataComplete P) = False \<and>
   snd (IsMetadataComplete P) =
     [''Partition::IsMetadataComplete() not yet implemented'' @ [CHR 0x0A]]"
  by (simp add: IsMetadataComplete_def)

section \<open>Properties of the BER length codec\<close>

lemma be_value_snoc: "be_value (bs @ [b]) = be_value bs * 256 + unat b"
  by (simp add: be_value_def)

lemma length_be_bytes: "length (be_bytes n v) = n"
  by (induction n arbitrary: v) simp_all

lemma unat_byte: "unat (of_nat (v mod 256) :: UInt8) = v mod 256"
  by (simp add: unat_of_nat)

lemma be_value_be_bytes: "be_value (be_bytes n v) = v mod 256 ^ n"
proof (induction n arbitrary: v)
  case 0
  then show ?case by (simp add: be_value_def)
next
  case (Suc n)
  have "be_value (be_bytes (Suc n) v) = (v div 256 mod 256 ^ n) * 256 + v mod 256"
    by (simp only: be_bytes.simps be_value_snoc Suc.IH unat_byte)
  also have "\<dots> = v mod (256 * 256 ^ n)"
    by (simp add: mod_mult2_eq)
  finally show ?case by simp
qed

lemma byte_count_ge: "1 \<le> byte_count v"
  by (subst byte_count.simps) simp

lemma byte_count_fits: "v < 256 ^ byte_count v"
proof (induction v rule: byte_count.induct)
  case (1 v)
  show ?case
  proof (cases "v < 256")
    case True then show ?thesis by (simp add: byte_count.simps [of v])
  next
    case False
    with 1 have "v div 256 < 256 ^ byte_count (v div 256)" by simp
    then have "v < 256 * 256 ^ byte_count (v div 256)"
      by (simp add: less_mult_imp_div_less div_less_iff_less_mult)
    with False show ?thesis by (simp add: byte_count.simps [of v])
  qed
qed

lemma byte_count_le:  "v < 256 ^ n \<Longrightarrow> 0 < n \<Longrightarrow> byte_count v \<le> n"
proof (induction v arbitrary: n rule: byte_count.induct)
  case (1 v)
  show ?case
  proof (cases "v < 256")
    case True then show ?thesis using 1(3) by (simp add: byte_count.simps [of v])
  next
    case False
    from 1(3) obtain m where n: "n = Suc m" by (cases n) auto
    with False 1(2) have "0 < m" by (cases m) auto
    moreover from 1(2) n have "v div 256 < 256 ^ m"
      by (simp add: div_less_iff_less_mult mult.commute)
    ultimately have "byte_count (v div 256) \<le> m" using 1(1) False by simp
    with False n show ?thesis by (simp add: byte_count.simps [of v])
  qed
qed

lemma byte_count_le_8: "l < 2 ^ 63 \<Longrightarrow> byte_count l \<le> 8"
proof -
  assume "l < 2 ^ 63"
  then have "l < 256 ^ 8" by simp
  then show ?thesis by (rule byte_count_le) simp
qed

text \<open>The first byte of the long form.\<close>

lemma long_form_prefix:
  assumes "1 \<le> n" and "n \<le> 8"
  shows "\<not> (of_nat (0x80 + n) :: UInt8) < 0x80"
    and "unat ((of_nat (0x80 + n) :: UInt8) AND 0x7F) = n"
proof -
  from assms have cases: "n \<in> {1, 2, 3, 4, 5, 6, 7, 8}"
    by (simp add: numeral_eq_Suc) arith
  then show "\<not> (of_nat (0x80 + n) :: UInt8) < 0x80"
    by auto
  from cases show "unat ((of_nat (0x80 + n) :: UInt8) AND 0x7F) = n"
    by auto
qed

lemma short_form:
  assumes "l < 0x80"
  shows "(of_nat l :: UInt8) < 0x80" and "unat (of_nat l :: UInt8) = l"
proof -
  show u: "unat (of_nat l :: UInt8) = l" using assms by (simp add: unat_of_nat)
  then show "(of_nat l :: UInt8) < 0x80" using assms by (simp add: word_less_nat_alt)
qed

lemma decode_long_form:
  assumes n: "1 \<le> n" "n \<le> 8" and fits: "l < 256 ^ n" and small: "l < 2 ^ 63"
  shows "decode_BER (of_nat (0x80 + n) # be_bytes n l) = Inr (l, 1 + n)"
proof -
  have v: "be_value (be_bytes n l) = l"
    using fits by (simp add: be_value_be_bytes)
  show ?thesis
    using n small long_form_prefix [OF n]
    by (simp add: decode_BER_def Let_def length_be_bytes v)
qed

text \<open>
  C6 (amended). For every length \<open>l < 2^63\<close>, decoding the minimum-width encoding gives \<open>l\<close>
  back, and decoding the encoding of width \<open>w\<close> gives \<open>l\<close> back whenever
  \<open>min_width l \<le> w \<le> 9\<close>; 0 encodes as \<open>[0x00]\<close>, 127 as \<open>[0x7F]\<close>, 128 as \<open>[0x81, 0x80]\<close>
  and 65535 as \<open>[0x82, 0xFF, 0xFF]\<close>.
\<close>

theorem BER_round_trip:
  assumes "l < 2 ^ 63"
  shows "decode_BER (encode_min_width l) = Inr (l, min_width l) \<and>
         (\<forall>w. min_width l \<le> w \<and> w \<le> 9 \<longrightarrow> decode_BER (encode_fixed_width l w) = Inr (l, w)) \<and>
         encode_min_width 0 = [0x00] \<and> encode_min_width 127 = [0x7F] \<and>
         encode_min_width 128 = [0x81, 0x80] \<and> encode_min_width 65535 = [0x82, 0xFF, 0xFF]"
proof (intro conjI allI impI)
  show "decode_BER (encode_min_width l) = Inr (l, min_width l)"
  proof (cases "l < 0x80")
    case True
    then show ?thesis
      using short_form [OF True] by (simp add: encode_min_width_def min_width_def decode_BER_def)
  next
    case False
    have "decode_BER (of_nat (0x80 + byte_count l) # be_bytes (byte_count l) l) = Inr (l, 1 + byte_count l)"
      using byte_count_ge byte_count_le_8 [OF assms] byte_count_fits assms by (rule decode_long_form)
    with False show ?thesis by (simp add: encode_min_width_def min_width_def Let_def)
  qed
next
  fix w assume w: "min_width l \<le> w \<and> w \<le> 9"
  show "decode_BER (encode_fixed_width l w) = Inr (l, w)"
  proof (cases "w \<le> 1")
    case True
    with w byte_count_ge [of l] have "l < 0x80" and "w = 1"
      by (auto simp: min_width_def split: if_splits)
    then show ?thesis
      using short_form [of l] by (simp add: encode_fixed_width_def decode_BER_def)
  next
    case False
    then have n: "1 \<le> w - 1" "w - 1 \<le> 8" using w by auto
    have "byte_count l \<le> w - 1"
    proof (cases "l < 0x80")
      case True
      then have "l < 256" by simp
      then have "byte_count l = 1" by (simp add: byte_count.simps [of l])
      with n show ?thesis by simp
    next
      case False
      then have "min_width l = 1 + byte_count l" by (simp add: min_width_def)
      with w show ?thesis by linarith
    qed
    then have "(256::nat) ^ byte_count l \<le> 256 ^ (w - 1)" by (intro power_increasing) simp_all
    with byte_count_fits [of l] have fits: "l < 256 ^ (w - 1)" by linarith
    have "decode_BER (of_nat (0x80 + (w - 1)) # be_bytes (w - 1) l) = Inr (l, 1 + (w - 1))"
      using n fits assms by (rule decode_long_form)
    with False show ?thesis by (simp add: encode_fixed_width_def)
  qed
next
  show "encode_min_width 0 = [0x00]" by (simp add: encode_min_width_def)
  show "encode_min_width 127 = [0x7F]" by (simp add: encode_min_width_def)
  show "encode_min_width 128 = [0x81, 0x80]"
    by (simp add: encode_min_width_def byte_count.simps [of 128])
  show "encode_min_width 65535 = [0x82, 0xFF, 0xFF]"
    by (simp add: encode_min_width_def byte_count.simps [of 65535] byte_count.simps [of 255])
qed

theorem BER_round_trip_witness:
  "(128 :: nat) < 2 ^ 63 \<and> min_width 128 \<le> 4 \<and> (4 :: nat) \<le> 9 \<and>
   encode_fixed_width 128 4 = [0x83, 0x00, 0x00, 0x80] \<and>
   decode_BER (encode_fixed_width 128 4) = Inr (128, 4) \<and>
   decode_BER (encode_min_width 128) = Inr (128, 2)"
proof -
  have a: "(128 :: nat) < 2 ^ 63" by simp
  have b: "min_width 128 = 2"
    by (simp add: min_width_def byte_count.simps [of 128])
  have c: "encode_fixed_width 128 4 = [0x83, 0x00, 0x00, 0x80]"
    by code_simp
  from BER_round_trip [OF a] have
    d: "decode_BER (encode_min_width 128) = Inr (128, min_width 128)" and
    e: "min_width 128 \<le> 4 \<and> (4 :: nat) \<le> 9 \<longrightarrow> decode_BER (encode_fixed_width 128 4) = Inr (128, 4)"
    by blast+
  from a b c d e show ?thesis by simp
qed

text \<open>
  C6 as stated fails for a width above 9: the first byte announces 9 bytes of length, which
  the decoder refuses.
\<close>

theorem BER_width_10_counterexample:
  "(0 :: nat) < 2 ^ 63 \<and> min_width 0 \<le> 10 \<and>
   encode_fixed_width 0 10 = [0x89, 0, 0, 0, 0, 0, 0, 0, 0, 0] \<and>
   decode_BER (encode_fixed_width 0 10) = Inl MalformedLength"
proof -
  have a: "min_width 0 \<le> 10" by (simp add: min_width_def)
  have b: "encode_fixed_width 0 10 = [0x89, 0, 0, 0, 0, 0, 0, 0, 0, 0]" by code_simp
  have c: "decode_BER [0x89, 0, 0, 0, 0, 0, 0, 0, 0, 0] = Inl MalformedLength"
    by (simp add: decode_BER_def)
  from a b c show ?thesis by simp
qed

section \<open>Properties of the resolution of references\<close>

lemma length_set_link [simp]: "length (set_link s t objs) = length objs"
  by (simp add: set_link_def split: prod.splits)

lemma links_of_set_link:
  "h < length objs \<Longrightarrow> links_of (set_link s t objs ! h) \<subseteq> insert t (links_of (objs ! h))"
proof -
  assume h: "h < length objs"
  obtain h' i where s: "s = (h', i)" by (cases s)
  show ?thesis
  proof (cases "h' < length objs \<and> i < length (References (objs ! h')) \<and> h' = h")
    case True
    have "set ((References (objs ! h))[i := (References (objs ! h) ! i)\<lparr>Link := Some t\<rparr>])
            \<subseteq> insert ((References (objs ! h) ! i)\<lparr>Link := Some t\<rparr>) (set (References (objs ! h)))"
      by (rule set_update_subset_insert)
    then show ?thesis using True h by (auto simp: s set_link_def links_of_def)
  next
    case False
    then show ?thesis using h by (auto simp: s set_link_def)
  qed
qed

lemma length_fold_set_link [simp]:
  "length (fold (\<lambda>e. set_link (snd e) t) es objs) = length objs"
  by (induction es arbitrary: objs) simp_all

lemma links_of_fold_set_link:
  "h < length objs \<Longrightarrow>
   links_of (fold (\<lambda>e. set_link (snd e) t) es objs ! h) \<subseteq> insert t (links_of (objs ! h))"
proof (induction es arbitrary: objs)
  case Nil
  then show ?case by auto
next
  case (Cons e es)
  have "links_of (fold (\<lambda>e. set_link (snd e) t) es (set_link (snd e) t objs) ! h)
          \<subseteq> insert t (links_of (set_link (snd e) t objs ! h))"
    using Cons.prems by (intro Cons.IH) simp
  also have "\<dots> \<subseteq> insert t (links_of (objs ! h))"
    using links_of_set_link [OF Cons.prems, of "snd e" t] by auto
  finally show ?case by simp
qed

lemma resolver_inv_register_reference:
  assumes "resolver_inv P"
  shows "resolver_inv (register_reference h ref P)"
proof -
  obtain i k u where ref: "ref = (i, k, u)" by (cases ref)
  show ?thesis
  proof (cases "RefTargets P u")
    case None
    with assms show ?thesis
      by (auto simp: ref register_reference_def resolver_inv_def)
  next
    case (Some t)
    then have t: "t \<in> set (AllMetadata P)"
      using assms by (auto simp: resolver_inv_def ran_def)
    have "\<And>h'. h' \<in> set (AllMetadata P) \<Longrightarrow>
            links_of (set_link (h, i) t (Objects P) ! h') \<subseteq> set (AllMetadata P)"
    proof -
      fix h' assume h': "h' \<in> set (AllMetadata P)"
      with assms have "h' < length (Objects P)" and "links_of (Objects P ! h') \<subseteq> set (AllMetadata P)"
        by (auto simp: resolver_inv_def)
      with links_of_set_link [of h' "Objects P" "(h, i)" t] t
      show "links_of (set_link (h, i) t (Objects P) ! h') \<subseteq> set (AllMetadata P)" by blast
    qed
    with assms Some show ?thesis
      by (simp add: ref register_reference_def resolver_inv_def)
  qed
qed

lemma resolver_inv_register_target:
  assumes "resolver_inv P" and "h \<in> set (AllMetadata P)"
  shows "resolver_inv (register_target h u P)"
proof -
  define P1 where "P1 = (case RefTargets P u of
                 None \<Rightarrow> P\<lparr>RefTargets := (RefTargets P)(u \<mapsto> h)\<rparr>
               | Some t \<Rightarrow> P)"
  have all: "AllMetadata P1 = AllMetadata P" and objs: "Objects P1 = Objects P"
    and un: "UnmatchedRefs P1 = UnmatchedRefs P"
    by (simp_all add: P1_def split: option.splits)
  have ran: "ran (RefTargets P1) \<subseteq> set (AllMetadata P)"
  proof (cases "RefTargets P u")
    case None
    then have "ran (RefTargets P1) = insert h (ran (RefTargets P))" by (simp add: P1_def)
    with assms show ?thesis by (auto simp: resolver_inv_def)
  next
    case (Some t)
    with assms show ?thesis by (simp add: P1_def resolver_inv_def)
  qed
  have keys: "\<And>e. e \<in> set (UnmatchedRefs P) \<Longrightarrow> fst e \<noteq> u \<Longrightarrow> RefTargets P1 (fst e) = None"
    using assms(1) by (auto simp: P1_def resolver_inv_def split: option.splits)
  have links: "\<And>h'. h' \<in> set (AllMetadata P) \<Longrightarrow>
      links_of (fold (\<lambda>e. set_link (snd e) h) (filter (\<lambda>e. fst e = u) (UnmatchedRefs P)) (Objects P) ! h')
        \<subseteq> set (AllMetadata P)"
  proof -
    fix h' assume h': "h' \<in> set (AllMetadata P)"
    with assms have "h' < length (Objects P)" and "links_of (Objects P ! h') \<subseteq> set (AllMetadata P)"
      by (auto simp: resolver_inv_def)
    with links_of_fold_set_link [of h' "Objects P" h] assms(2)
    show "links_of (fold (\<lambda>e. set_link (snd e) h) (filter (\<lambda>e. fst e = u) (UnmatchedRefs P)) (Objects P) ! h')
        \<subseteq> set (AllMetadata P)" by blast
  qed
  have len: "\<And>h'. h' \<in> set (AllMetadata P) \<Longrightarrow> h' < length (Objects P)"
    using assms(1) by (simp add: resolver_inv_def)
  have "register_target h u P =
          P1\<lparr>UnmatchedRefs := filter (\<lambda>e. fst e \<noteq> u) (UnmatchedRefs P1),
             Objects := fold (\<lambda>e. set_link (snd e) h) (filter (\<lambda>e. fst e = u) (UnmatchedRefs P1)) (Objects P1)\<rparr>"
    by (simp add: register_target_def P1_def Let_def)
  then show ?thesis
    using ran keys links len by (simp add: resolver_inv_def all objs un)
qed

lemma fold_preserves:
  assumes "\<And>x s. I s \<Longrightarrow> I (f x s)" and "I s"
  shows "I (fold f xs s)"
  using assms(2) by (induction xs arbitrary: s) (simp_all add: assms(1))

lemma links_of_new_object: "links_of (new_object ps) = {}"
  by (auto simp: links_of_def new_object_def)

lemma resolver_inv_add_set:
  assumes "resolver_inv P"
  shows "resolver_inv (add_set ps P)"
proof -
  define h where "h = length (Objects P)"
  define P1 where "P1 = P\<lparr>AllMetadata := AllMetadata P @ [h], Objects := Objects P @ [new_object ps]\<rparr>"
  have inv1: "resolver_inv P1"
    using assms
    by (auto simp: resolver_inv_def P1_def h_def nth_append links_of_new_object less_Suc_eq)
  have h1: "h \<in> set (AllMetadata P1)" by (simp add: P1_def)
  have inv2: "resolver_inv (case SetInstanceUID ps of None \<Rightarrow> P1 | Some u \<Rightarrow> register_target h u P1)"
    using inv1 h1 by (auto split: option.splits intro: resolver_inv_register_target)
  have "add_set ps P =
          fold (register_reference h) (enumerate 0 (SetReferences ps))
            (case SetInstanceUID ps of None \<Rightarrow> P1 | Some u \<Rightarrow> register_target h u P1)"
    unfolding add_set_def Let_def h_def P1_def by (rule refl)
  with inv2 show ?thesis
    by (simp add: fold_preserves [where I = resolver_inv] resolver_inv_register_reference)
qed

lemma resolver_inv_finalise: "resolver_inv P \<Longrightarrow> resolver_inv (snd (finalise P))"
  by (simp add: finalise_def resolver_inv_def)

lemma resolver_inv_ReadMetadata: "resolver_inv P \<Longrightarrow> resolver_inv (snd (ReadMetadata P sets))"
  unfolding ReadMetadata_def
  by (intro resolver_inv_finalise fold_preserves [where I = resolver_inv] resolver_inv_add_set)

lemma resolver_inv_ClearMetadata: "resolver_inv (ClearMetadata P)"
  by (simp add: resolver_inv_def ClearMetadata_def)

lemma valid_slot_set_link [simp]: "valid_slot (set_link s' t objs) s = valid_slot objs s"
  by (cases s; cases s') (auto simp: valid_slot_def set_link_def nth_list_update)

lemma link_at_set_link:
  "valid_slot objs s \<Longrightarrow>
   link_at (set_link s' t objs) s = (if s' = s then Some t else link_at objs s)"
  by (cases s; cases s') (auto simp: valid_slot_def link_at_def set_link_def nth_list_update)

lemma link_at_fold_set_link:
  "valid_slot objs s \<Longrightarrow> s \<in> snd ` set es \<or> link_at objs s = Some t \<Longrightarrow>
   link_at (fold (\<lambda>e. set_link (snd e) t) es objs) s = Some t"
proof (induction es arbitrary: objs)
  case Nil
  then show ?case by simp
next
  case (Cons e es)
  have "valid_slot (set_link (snd e) t objs) s" using Cons.prems(1) by simp
  moreover have "s \<in> snd ` set es \<or> link_at (set_link (snd e) t objs) s = Some t"
    using Cons.prems by (auto simp: link_at_set_link)
  ultimately show ?case using Cons.IH by simp
qed

lemma register_target_drains:
  "(\<forall>e \<in> set (UnmatchedRefs (register_target h u P)). fst e \<noteq> u) \<and>
   (\<forall>e \<in> set (UnmatchedRefs P). fst e = u \<and> valid_slot (Objects P) (snd e) \<longrightarrow>
      link_at (Objects (register_target h u P)) (snd e) = Some h) \<and>
   (RefTargets P u = None \<longrightarrow> RefTargets (register_target h u P) u = Some h)"
proof -
  have "\<And>e. e \<in> set (UnmatchedRefs P) \<Longrightarrow> fst e = u \<Longrightarrow> valid_slot (Objects P) (snd e) \<Longrightarrow>
     link_at (fold (\<lambda>e. set_link (snd e) h) (filter (\<lambda>e. fst e = u) (UnmatchedRefs P)) (Objects P)) (snd e) = Some h"
    by (rule link_at_fold_set_link) auto
  then show ?thesis
    by (auto simp: register_target_def Let_def split: option.splits)
qed

lemmas resolver_defs = ReadMetadata_def finalise_def add_set_def register_target_def
  register_reference_def new_object_def set_link_def strong_targets_def strong_links_def
  dangling_def slot_kind_def ClearMetadata_def empty_metadata_def forward_reference_def
  uuid_A_def uuid_B_def uuid_C_def valid_slot_def link_at_def Let_def

text \<open>
  C3. Take a partition that was cleared (or just built) and has since read any number of
  runs of sets. After \<open>ReadMetadata\<close> no entry of \<open>UnmatchedRefs\<close> has a UUID that is a key of
  \<open>RefTargets\<close>, and every resolved strong reference of an object of \<open>AllMetadata\<close> points to
  an object of \<open>AllMetadata\<close>. Registering an InstanceUID leaves no unmatched entry with that
  UUID, resolves the slots of the entries drained to the registered object, and makes a new
  UUID a key of \<open>RefTargets\<close> for that object.
\<close>

theorem ReadMetadata_references_resolved:
  "(let P' = snd (ReadMetadata (fold (\<lambda>b P. snd (ReadMetadata P b)) earlier (ClearMetadata P0)) sets)
    in (\<forall>e \<in> set (UnmatchedRefs P'). RefTargets P' (fst e) = None) \<and>
       (\<forall>h \<in> set (AllMetadata P'). h < length (Objects P') \<and>
          (\<forall>r \<in> set (References (Objects P' ! h)). Kind r = RefStrong \<longrightarrow>
             (\<forall>t. Link r = Some t \<longrightarrow> t \<in> set (AllMetadata P'))))) \<and>
   (\<forall>e \<in> set (UnmatchedRefs (register_target h u P)). fst e \<noteq> u) \<and>
   (\<forall>e \<in> set (UnmatchedRefs P). fst e = u \<and> valid_slot (Objects P) (snd e) \<longrightarrow>
      link_at (Objects (register_target h u P)) (snd e) = Some h) \<and>
   (RefTargets P u = None \<longrightarrow> RefTargets (register_target h u P) u = Some h)"
proof -
  define P1 where "P1 = fold (\<lambda>b P. snd (ReadMetadata P b)) earlier (ClearMetadata P0)"
  have "resolver_inv P1"
    unfolding P1_def
    by (rule fold_preserves [where I = resolver_inv]) (simp_all add: resolver_inv_ReadMetadata resolver_inv_ClearMetadata)
  then have "resolver_inv (snd (ReadMetadata P1 sets))" by (rule resolver_inv_ReadMetadata)
  then have "(let P' = snd (ReadMetadata P1 sets)
    in (\<forall>e \<in> set (UnmatchedRefs P'). RefTargets P' (fst e) = None) \<and>
       (\<forall>h \<in> set (AllMetadata P'). h < length (Objects P') \<and>
          (\<forall>r \<in> set (References (Objects P' ! h)). Kind r = RefStrong \<longrightarrow>
             (\<forall>t. Link r = Some t \<longrightarrow> t \<in> set (AllMetadata P')))))"
    unfolding resolver_inv_def Let_def links_of_def by blast
  with register_target_drains [of h u P] show ?thesis unfolding P1_def by blast
qed

theorem ReadMetadata_references_resolved_witness:
  "(let P' = snd (ReadMetadata (ClearMetadata empty_metadata) forward_reference)
    in (uuid_C, (1, 1)) \<in> set (UnmatchedRefs P') \<and> RefTargets P' uuid_C = None \<and>
       0 \<in> set (AllMetadata P') \<and>
       \<lparr>Kind = RefStrong, Target = uuid_B, Link = Some 1\<rparr> \<in> set (References (Objects P' ! 0)) \<and>
       1 \<in> set (AllMetadata P')) \<and>
   (let P = add_set (hd forward_reference) (ClearMetadata empty_metadata)
    in (uuid_B, (0, 0)) \<in> set (UnmatchedRefs P) \<and> valid_slot (Objects P) (0, 0) \<and>
       RefTargets P uuid_B = None \<and>
       link_at (Objects (register_target 1 uuid_B P)) (0, 0) = Some 1 \<and>
       RefTargets (register_target 1 uuid_B P) uuid_B = Some 1 \<and>
       (uuid_B, (0, 0)) \<notin> set (UnmatchedRefs (register_target 1 uuid_B P)))"
proof -
  define P' where "P' = snd (ReadMetadata (ClearMetadata empty_metadata) forward_reference)"
  define P where "P = add_set (hd forward_reference) (ClearMetadata empty_metadata)"
  have inst:
    "((\<forall>e \<in> set (UnmatchedRefs P'). RefTargets P' (fst e) = None) \<and>
       (\<forall>h \<in> set (AllMetadata P'). h < length (Objects P') \<and>
          (\<forall>r \<in> set (References (Objects P' ! h)). Kind r = RefStrong \<longrightarrow>
             (\<forall>t. Link r = Some t \<longrightarrow> t \<in> set (AllMetadata P'))))) \<and>
     (\<forall>e \<in> set (UnmatchedRefs (register_target 1 uuid_B P)). fst e \<noteq> uuid_B) \<and>
     (\<forall>e \<in> set (UnmatchedRefs P). fst e = uuid_B \<and> valid_slot (Objects P) (snd e) \<longrightarrow>
        link_at (Objects (register_target 1 uuid_B P)) (snd e) = Some 1) \<and>
     (RefTargets P uuid_B = None \<longrightarrow> RefTargets (register_target 1 uuid_B P) uuid_B = Some 1)"
    using ReadMetadata_references_resolved [of "[]" empty_metadata forward_reference 1 uuid_B P]
    by (simp only: fold.simps id_apply Let_def P'_def)
  have e1: "(uuid_C, (1, 1)) \<in> set (UnmatchedRefs P')"
    by (simp add: P'_def resolver_defs)
  have e2: "0 \<in> set (AllMetadata P')"
    by (simp add: P'_def resolver_defs)
  have e3: "\<lparr>Kind = RefStrong, Target = uuid_B, Link = Some 1\<rparr> \<in> set (References (Objects P' ! 0))"
    by (simp add: P'_def resolver_defs)
  have e4: "(uuid_B, (0, 0)) \<in> set (UnmatchedRefs P)"
    by (simp add: P_def resolver_defs)
  have e5: "valid_slot (Objects P) (0, 0)"
    by (simp add: P_def resolver_defs)
  have e6: "RefTargets P uuid_B = None"
    by (simp add: P_def resolver_defs)
  from inst e1 have r1: "RefTargets P' uuid_C = None" by fastforce
  from inst e2 e3 have r2: "1 \<in> set (AllMetadata P')" by fastforce
  from inst e4 e5 have r3: "link_at (Objects (register_target 1 uuid_B P)) (0, 0) = Some 1"
    by fastforce
  from inst e6 have r4: "RefTargets (register_target 1 uuid_B P) uuid_B = Some 1" by blast
  from inst have r5: "(uuid_B, (0, 0)) \<notin> set (UnmatchedRefs (register_target 1 uuid_B P))"
    by fastforce
  from e1 e2 e3 e4 e5 e6 r1 r2 r3 r4 r5 show ?thesis
    unfolding Let_def P'_def [symmetric] P_def [symmetric] by blast
qed

lemma set_strong_links:
  "set (strong_links obj) = {t. \<exists>r \<in> set (References obj). Kind r = RefStrong \<and> Link r = Some t}"
  by (auto simp: strong_links_def split: option.splits if_splits)

lemma set_strong_targets:
  "set (strong_targets P) =
    {t. \<exists>h \<in> set (AllMetadata P). h < length (Objects P) \<and>
          (\<exists>r \<in> set (References (Objects P ! h)). Kind r = RefStrong \<and> Link r = Some t)}"
  by (auto simp: strong_targets_def set_strong_links split: if_splits)

lemma finalise_fields:
  "AllMetadata (snd (finalise P)) = AllMetadata P"
  "Objects (snd (finalise P)) = Objects P"
  "TopLevelMetadata (snd (finalise P)) = filter (\<lambda>h. h \<notin> set (strong_targets P)) (AllMetadata P)"
  by (simp_all add: finalise_def)

lemma set_strong_targets_of_others:
  "set (strong_targets_of_others P t) =
    {t'. \<exists>h \<in> set (AllMetadata P). h \<noteq> t \<and> h < length (Objects P) \<and>
          (\<exists>r \<in> set (References (Objects P ! h)). Kind r = RefStrong \<and> Link r = Some t')}"
  by (auto simp: strong_targets_of_others_def set_strong_links split: if_splits)

lemma set_not_owned_by_another:
  "set (not_owned_by_another P) =
    set (AllMetadata P) -
    {t. \<exists>h \<in> set (AllMetadata P). h \<noteq> t \<and> h < length (Objects P) \<and>
          (\<exists>r \<in> set (References (Objects P ! h)). Kind r = RefStrong \<and> Link r = Some t)}"
  by (auto simp: not_owned_by_another_def set_strong_targets_of_others)

text \<open>
  C4 as stated fails: a set that refers strongly to itself is the target of no other
  object's reference, yet it is not in \<open>TopLevelMetadata\<close>.
\<close>

theorem TopLevelMetadata_self_reference_counterexample:
  "AllMetadata (snd (ReadMetadata (ClearMetadata empty_metadata) self_reference)) = [0] \<and>
   Objects (snd (ReadMetadata (ClearMetadata empty_metadata) self_reference)) =
     [\<lparr>InstanceUID = Some uuid_A,
       References = [\<lparr>Kind = RefStrong, Target = uuid_A, Link = Some 0\<rparr>]\<rparr>] \<and>
   not_owned_by_another (snd (ReadMetadata (ClearMetadata empty_metadata) self_reference)) = [0] \<and>
   TopLevelMetadata (snd (ReadMetadata (ClearMetadata empty_metadata) self_reference)) = [] \<and>
   TopLevelMetadata (snd (ReadMetadata (ClearMetadata empty_metadata) self_reference)) \<noteq>
     not_owned_by_another (snd (ReadMetadata (ClearMetadata empty_metadata) self_reference))"
  by (simp add: resolver_defs self_reference_def not_owned_by_another_def
      strong_targets_of_others_def)

text \<open>
  C4 (amended). After \<open>ReadMetadata\<close>, \<open>TopLevelMetadata\<close> is \<open>AllMetadata\<close>, in its order,
  without the objects that a resolved strong reference of any object of \<open>AllMetadata\<close>, the
  object itself included, points to. Where no object refers strongly to itself, these are
  the objects that a strong reference of another object points to, and \<open>TopLevelMetadata\<close>
  is the list of the objects that no other object refers to strongly.
\<close>

theorem TopLevelMetadata_complement:
  "(let P' = snd (ReadMetadata P sets);
        owned = {t. \<exists>h \<in> set (AllMetadata P'). h < length (Objects P') \<and>
                  (\<exists>r \<in> set (References (Objects P' ! h)). Kind r = RefStrong \<and> Link r = Some t)};
        owned_by_other = {t. \<exists>h \<in> set (AllMetadata P'). h \<noteq> t \<and> h < length (Objects P') \<and>
                  (\<exists>r \<in> set (References (Objects P' ! h)). Kind r = RefStrong \<and> Link r = Some t)}
    in TopLevelMetadata P' = filter (\<lambda>t. t \<notin> owned) (AllMetadata P') \<and>
       set (TopLevelMetadata P') = set (AllMetadata P') - owned \<and>
       ((\<forall>h \<in> set (AllMetadata P'). h < length (Objects P') \<longrightarrow>
           (\<forall>r \<in> set (References (Objects P' ! h)). Kind r = RefStrong \<longrightarrow> Link r \<noteq> Some h)) \<longrightarrow>
        set (TopLevelMetadata P') = set (AllMetadata P') - owned_by_other \<and>
        TopLevelMetadata P' = not_owned_by_another P'))"
proof -
  define Q where "Q = fold add_set sets P"
  define P' where "P' = snd (finalise Q)"
  have eq: "snd (ReadMetadata P sets) = P'" by (simp add: ReadMetadata_def Q_def P'_def)
  have flds: "AllMetadata P' = AllMetadata Q" "Objects P' = Objects Q"
    "TopLevelMetadata P' = filter (\<lambda>h. h \<notin> set (strong_targets Q)) (AllMetadata Q)"
    by (simp_all add: P'_def finalise_fields)
  have others: "strong_targets_of_others P' t = strong_targets_of_others Q t" for t
    unfolding strong_targets_of_others_def flds by (rule refl)
  have same: "TopLevelMetadata P' = not_owned_by_another P'"
    if forest: "\<forall>h \<in> set (AllMetadata Q). h < length (Objects Q) \<longrightarrow>
           (\<forall>r \<in> set (References (Objects Q ! h)). Kind r = RefStrong \<longrightarrow> Link r \<noteq> Some h)"
  proof -
    have "t \<in> set (strong_targets Q) \<longleftrightarrow> t \<in> set (strong_targets_of_others Q t)" for t
    proof
      assume "t \<in> set (strong_targets Q)"
      then obtain h r where h: "h \<in> set (AllMetadata Q)" "h < length (Objects Q)"
        and r: "r \<in> set (References (Objects Q ! h))" "Kind r = RefStrong" "Link r = Some t"
        unfolding set_strong_targets by blast
      from forest h r(1,2) have "Link r \<noteq> Some h" by blast
      with r(3) have "h \<noteq> t" by auto
      with h r show "t \<in> set (strong_targets_of_others Q t)"
        unfolding set_strong_targets_of_others by blast
    next
      assume "t \<in> set (strong_targets_of_others Q t)"
      then show "t \<in> set (strong_targets Q)"
        unfolding set_strong_targets set_strong_targets_of_others by blast
    qed
    then show ?thesis
      by (simp add: flds not_owned_by_another_def others)
  qed
  have "TopLevelMetadata P' = filter (\<lambda>t. t \<notin> {t. \<exists>h \<in> set (AllMetadata P'). h < length (Objects P') \<and>
                  (\<exists>r \<in> set (References (Objects P' ! h)). Kind r = RefStrong \<and> Link r = Some t)}) (AllMetadata P') \<and>
       set (TopLevelMetadata P') = set (AllMetadata P') - {t. \<exists>h \<in> set (AllMetadata P'). h < length (Objects P') \<and>
                  (\<exists>r \<in> set (References (Objects P' ! h)). Kind r = RefStrong \<and> Link r = Some t)} \<and>
       ((\<forall>h \<in> set (AllMetadata P'). h < length (Objects P') \<longrightarrow>
           (\<forall>r \<in> set (References (Objects P' ! h)). Kind r = RefStrong \<longrightarrow> Link r \<noteq> Some h)) \<longrightarrow>
        set (TopLevelMetadata P') = set (AllMetadata P') - {t. \<exists>h \<in> set (AllMetadata P'). h \<noteq> t \<and> h < length (Objects P') \<and>
                  (\<exists>r \<in> set (References (Objects P' ! h)). Kind r = RefStrong \<and> Link r = Some t)} \<and>
        TopLevelMetadata P' = not_owned_by_another P')"
  proof (intro conjI impI)
    show "TopLevelMetadata P' = filter (\<lambda>t. t \<notin> {t. \<exists>h \<in> set (AllMetadata P'). h < length (Objects P') \<and>
                  (\<exists>r \<in> set (References (Objects P' ! h)). Kind r = RefStrong \<and> Link r = Some t)}) (AllMetadata P')"
      by (simp add: flds set_strong_targets)
    show "set (TopLevelMetadata P') = set (AllMetadata P') - {t. \<exists>h \<in> set (AllMetadata P'). h < length (Objects P') \<and>
                  (\<exists>r \<in> set (References (Objects P' ! h)). Kind r = RefStrong \<and> Link r = Some t)}"
      by (auto simp: flds set_strong_targets)
  next
    assume forest: "\<forall>h \<in> set (AllMetadata P'). h < length (Objects P') \<longrightarrow>
           (\<forall>r \<in> set (References (Objects P' ! h)). Kind r = RefStrong \<longrightarrow> Link r \<noteq> Some h)"
    then have s: "TopLevelMetadata P' = not_owned_by_another P'"
      by (intro same) (simp add: flds)
    then show "TopLevelMetadata P' = not_owned_by_another P'" .
    from s show "set (TopLevelMetadata P') = set (AllMetadata P') - {t. \<exists>h \<in> set (AllMetadata P'). h \<noteq> t \<and> h < length (Objects P') \<and>
                  (\<exists>r \<in> set (References (Objects P' ! h)). Kind r = RefStrong \<and> Link r = Some t)}"
      by (simp only: set_not_owned_by_another)
  qed
  then show ?thesis unfolding Let_def eq .
qed

theorem TopLevelMetadata_complement_witness:
  "(let P' = snd (ReadMetadata (ClearMetadata empty_metadata) forward_reference)
    in AllMetadata P' = [0, 1] \<and>
       map (\<lambda>r. (Kind r, Link r)) (References (Objects P' ! 0)) = [(RefStrong, Some 1)] \<and>
       map (\<lambda>r. (Kind r, Link r)) (References (Objects P' ! 1)) = [(RefWeak, Some 0), (RefWeak, None)] \<and>
       TopLevelMetadata P' = [0] \<and>
       not_owned_by_another P' = [0])"
proof -
  define P' where "P' = snd (ReadMetadata (ClearMetadata empty_metadata) forward_reference)"
  note inst = TopLevelMetadata_complement
    [of "ClearMetadata empty_metadata" forward_reference, folded P'_def, unfolded Let_def]
  have e1: "AllMetadata P' = [0, 1]"
    by (simp add: P'_def resolver_defs)
  have e2: "Objects P' =
    [\<lparr>InstanceUID = Some uuid_A, References = [\<lparr>Kind = RefStrong, Target = uuid_B, Link = Some 1\<rparr>]\<rparr>,
     \<lparr>InstanceUID = Some uuid_B, References = [\<lparr>Kind = RefWeak, Target = uuid_A, Link = Some 0\<rparr>,
       \<lparr>Kind = RefWeak, Target = uuid_C, Link = None\<rparr>]\<rparr>]"
    by (simp add: P'_def resolver_defs)
  have forest: "\<forall>h \<in> set (AllMetadata P'). h < length (Objects P') \<longrightarrow>
           (\<forall>r \<in> set (References (Objects P' ! h)). Kind r = RefStrong \<longrightarrow> Link r \<noteq> Some h)"
    by (simp add: e1 e2)
  from inst have "TopLevelMetadata P' = filter (\<lambda>t. t \<notin> {t. \<exists>h \<in> set (AllMetadata P'). h < length (Objects P') \<and>
                  (\<exists>r \<in> set (References (Objects P' ! h)). Kind r = RefStrong \<and> Link r = Some t)}) (AllMetadata P')"
    by blast
  then have r: "TopLevelMetadata P' = [0]" by (simp add: e1 e2)
  from inst forest have "TopLevelMetadata P' = not_owned_by_another P'" by blast
  with r have r': "not_owned_by_another P' = [0]" by simp
  from e1 e2 r r' show ?thesis unfolding Let_def P'_def [symmetric] by simp
qed

section \<open>Properties of the iteration over the body\<close>

lemma items_of_simps [simp]:
  "items_of [] = []"
  "items_of ((e, None) # region) = e # items_of region"
  "items_of ((e, Some x) # region) = e # x # items_of region"
  by (simp_all add: items_of_def)

lemma single_fills_simps [simp]:
  "single_fills []"
  "single_fills ((e, fill) # region) \<longleftrightarrow>
     ItemKind e = Essence \<and> (\<forall>x. fill = Some x \<longrightarrow> ItemKind x = Fill) \<and> single_fills region"
  by (auto simp: single_fills_def)

lemma SkipFill_stays:
  assumes "laid_out file q (items_of region)" and "single_fills region"
      and "region_ends file (end_of q (items_of region))"
  shows "SkipFill file q = q"
proof (cases region)
  case Nil
  with assms(3) show ?thesis
    by (auto simp: SkipFill_def region_ends_def split: option.splits)
next
  case (Cons a r)
  obtain e fill where a: "a = (e, fill)" by (cases a)
  from assms(1,2) have "file q = Some e" "ItemKind e = Essence"
    by (cases fill; simp add: Cons a)+
  then show ?thesis by (simp add: SkipFill_def)
qed

lemma elements_of_region:
  fixes P :: "'a Partition_scheme"
  assumes "laid_out file p (items_of region)" and "single_fills region"
      and "region_ends file (end_of p (items_of region))"
      and "NextBodyLocation P = p"
  shows "(elements (length region + Suc m) f file P :: ('s::len) KLVObject option list) =
           map Some (cursors f p region) @ replicate (Suc m) None"
  using assms
proof (induction region arbitrary: p P)
  case Nil
  then have n: "(NextElement f file P :: 's KLVObject option \<times> 'a Partition_scheme) = (None, P)"
    by (auto simp: NextElement_def region_ends_def Let_def split: option.splits)
  have "(elements k f file P :: 's KLVObject option list) = replicate k None" for k
    by (induction k) (simp_all add: n)
  then show ?case by simp
next
  case (Cons a region)
  obtain e fill where a: "a = (e, fill)" by (cases a)
  define q where "q = p + item_size e + (case fill of None \<Rightarrow> 0 | Some x \<Rightarrow> item_size x)"
  from Cons.prems(1,2) have e: "file p = Some e" "ItemKind e = Essence"
    by (cases fill; simp add: a)+
  have rest: "laid_out file q (items_of region)" "single_fills region"
    "region_ends file (end_of q (items_of region))"
    using Cons.prems(1,2,3) by (cases fill; simp add: a q_def)+
  have stays: "SkipFill file q = q" using rest by (rule SkipFill_stays)
  have skip: "SkipFill file (p + item_size e) = q"
  proof (cases fill)
    case None
    with stays show ?thesis by (simp add: q_def)
  next
    case (Some x)
    with Cons.prems(1,2) have "file (p + item_size e) = Some x" "ItemKind x = Fill"
      by (simp_all add: a)
    then show ?thesis by (simp add: SkipFill_def q_def Some)
  qed
  define P' where "P' = P\<lparr>BodyLocation := p, NextBodyLocation := q\<rparr>"
  have n: "(NextElement f file P :: 's KLVObject option \<times> 'a Partition_scheme) = (Some (element_cursor f p e), P')"
    using e skip Cons.prems(4) by (simp add: NextElement_def Let_def P'_def)
  have "NextBodyLocation P' = q" by (simp add: P'_def)
  with rest have "(elements (length region + Suc m) f file P' :: 's KLVObject option list) =
           map Some (cursors f q region) @ replicate (Suc m) None"
    by (rule Cons.IH)
  then show ?case by (simp add: n a q_def)
qed

lemma GetUL_cursors:
  "map GetUL (cursors f p region :: ('s::len) KLVObject list) = map (\<lambda>(e, fill). Some (ItemKey e)) region"
  by (induction region arbitrary: p) (auto simp: GetUL_def element_cursor_def)

lemma cursors_not_materialised:
  "c \<in> set (cursors f p region :: ('s::len) KLVObject list) \<Longrightarrow> Size (Data c) = 0 \<and> Bytes (Data c) = []"
  by (induction region arbitrary: p) (auto simp: element_cursor_def)

text \<open>
  C7. Let the essence region lie in the file from \<open>body_start\<close> on, each essence item
  followed by at most one KLV-Fill, up to the next partition pack or the end of the file.
  After \<open>StartElements\<close>, the calls of \<open>NextElement\<close> return a cursor for each essence item in
  file order, each with the key of its item and an empty chunk, and from then on the null
  cursor. \<open>SkipFill\<close> steps over one KLV-Fill, whatever follows it.
\<close>

theorem essence_iteration:
  fixes P :: "'a Partition_scheme"
  assumes "single_fills region" and "laid_out file body_start (items_of region)"
      and "region_ends file (end_of body_start (items_of region))"
  shows "(elements (length region + Suc m) f file (snd (StartElements file body_start P))
            :: ('s::len) KLVObject option list) =
           map Some (cursors f body_start region) @ replicate (Suc m) None \<and>
         fst (StartElements file body_start P) = (region \<noteq> []) \<and>
         map GetUL (cursors f body_start region :: 's KLVObject list) =
           map (\<lambda>(e, fill). Some (ItemKey e)) region \<and>
         (\<forall>c \<in> set (cursors f body_start region :: 's KLVObject list).
            Size (Data c) = 0 \<and> Bytes (Data c) = []) \<and>
         (\<forall>q x. file q = Some x \<and> ItemKind x = Fill \<longrightarrow> SkipFill file q = q + item_size x)"
proof -
  have stays: "SkipFill file body_start = body_start"
    using assms(2,1,3) by (rule SkipFill_stays)
  then have next_loc: "NextBodyLocation (snd (StartElements file body_start P)) = body_start"
    by (simp add: StartElements_def Let_def)
  have a: "(elements (length region + Suc m) f file (snd (StartElements file body_start P))
            :: 's KLVObject option list) =
           map Some (cursors f body_start region) @ replicate (Suc m) None"
    using assms(2,1,3) next_loc by (rule elements_of_region)
  have b: "fst (StartElements file body_start P) = (region \<noteq> [])"
  proof (cases region)
    case Nil
    with assms(3) show ?thesis
      by (auto simp: StartElements_def Let_def stays at_element_def region_ends_def split: option.splits)
  next
    case (Cons x r)
    obtain e fill where x: "x = (e, fill)" by (cases x)
    from assms(1,2) have "file body_start = Some e" "ItemKind e = Essence"
      by (cases fill; simp add: Cons x)+
    then show ?thesis
      by (simp add: StartElements_def Let_def stays at_element_def Cons)
  qed
  have c: "\<forall>q x. file q = Some x \<and> ItemKind x = Fill \<longrightarrow> SkipFill file q = q + item_size x"
    by (simp add: SkipFill_def)
  from a b c GetUL_cursors [of f body_start region] cursors_not_materialised [of _ f body_start region]
  show ?thesis by blast
qed

lemmas example_file_defs = example_file_def double_fill_file_def item_A_def item_B_def fill_17_def
  next_pack_def item_size_def

theorem essence_iteration_witness:
  "single_fills [(item_A, Some fill_17), (item_B, None)] \<and>
   laid_out example_file 1000 [item_A, fill_17, item_B] \<and>
   example_file 1207 = Some next_pack \<and>
   (elements 3 (Some 7) example_file (snd (StartElements example_file 1000 empty_metadata))
      :: 64 KLVObject option list) =
     [Some (element_cursor (Some 7) 1000 item_A), Some (element_cursor (Some 7) 1137 item_B), None] \<and>
   double_fill_file 1120 = Some fill_17 \<and> double_fill_file 1137 = Some fill_17 \<and>
   SkipFill double_fill_file 1120 = 1137"
proof -
  let ?region = "[(item_A, Some fill_17), (item_B, None)]"
  have h1: "single_fills ?region" by (simp add: item_A_def item_B_def fill_17_def)
  have h2: "laid_out example_file 1000 (items_of ?region)" by (simp add: example_file_defs)
  have e3: "example_file 1207 = Some next_pack" by (simp add: example_file_defs)
  have h3: "region_ends example_file (end_of 1000 (items_of ?region))"
    by (simp add: example_file_defs region_ends_def)
  have c: "(cursors (Some 7) 1000 ?region :: 64 KLVObject list) =
             [element_cursor (Some 7) 1000 item_A, element_cursor (Some 7) 1137 item_B]"
    by (simp add: example_file_defs)
  have d1: "double_fill_file 1120 = Some fill_17" and d2: "double_fill_file 1137 = Some fill_17"
    by (simp_all add: example_file_defs)
  have k: "ItemKind fill_17 = Fill" by (simp add: fill_17_def)
  have s: "(1120 :: UInt64) + item_size fill_17 = 1137" by (simp add: example_file_defs)
  have n: "length ?region + Suc 0 = 3" by simp
  from essence_iteration [OF h1 h2 h3, of 0 "Some 7" empty_metadata, where 's = 64]
  have "(elements (length ?region + Suc 0) (Some 7) example_file
           (snd (StartElements example_file 1000 empty_metadata)) :: 64 KLVObject option list) =
         map Some (cursors (Some 7) 1000 ?region) @ replicate (Suc 0) None"
    by blast
  then have r1: "(elements 3 (Some 7) example_file (snd (StartElements example_file 1000 empty_metadata))
      :: 64 KLVObject option list) =
     [Some (element_cursor (Some 7) 1000 item_A), Some (element_cursor (Some 7) 1137 item_B), None]"
    by (simp only: n c) simp
  have g1: "single_fills []" by simp
  have g2: "laid_out double_fill_file 1224 (items_of [])" by simp
  have g3: "region_ends double_fill_file (end_of 1224 (items_of []))"
    by (simp add: example_file_defs region_ends_def)
  from essence_iteration [OF g1 g2 g3, of 0 "Some 7" empty_metadata, where 's = 64]
  have "\<forall>q x. double_fill_file q = Some x \<and> ItemKind x = Fill \<longrightarrow>
          SkipFill double_fill_file q = q + item_size x"
    by blast
  with d1 k have "SkipFill double_fill_file 1120 = 1120 + item_size fill_17" by blast
  with s have r2: "SkipFill double_fill_file 1120 = 1137" by simp
  from h1 h2 e3 r1 d1 d2 r2 show ?thesis by simp
qed

text \<open>
  Where two KLV-Fills follow an essence item, the second one is the next element that
  \<open>NextElement\<close> returns.
\<close>

lemma second_fill_is_an_element:
  "(elements 3 (Some 7) double_fill_file (snd (StartElements double_fill_file 1000 empty_metadata))
      :: 64 KLVObject option list) =
     [Some (element_cursor (Some 7) 1000 item_A), Some (element_cursor (Some 7) 1137 fill_17),
      Some (element_cursor (Some 7) 1154 item_B)]"
  by (simp add: numeral_3_eq_3 StartElements_def NextElement_def SkipFill_def Let_def
      example_file_defs empty_metadata_def)

end
